theory Spec2Isabelle
  imports Main "HOL-Library.List_Lexorder" "HOL-Library.Product_Lexorder" "HOL-Library.Sublist"
    "HOL-Library.Multiset"
begin

section \<open>Upcoming tram departures from a GTFS feed (build_janudul.py)\<close>

text \<open>
  The script reads six GTFS tables, finds the services active today, and lists the next
  departures from the stops named \<open>STOP_NAME\<close>. Everything below the download and the CSV
  parsing is embedded here: \<open>to_seconds\<close>, \<open>active_service_ids\<close> and the body of \<open>main\<close>
  from the stop lookup to the dictionary handed to \<open>json.dump\<close>.
\<close>

subsection \<open>Strings, rows and exceptions\<close>

text \<open>
  A Python \<open>str\<close> is a sequence of Unicode code points, so a string is a list of naturals
  (Isabelle's \<open>char\<close> is a byte). \<open>ascii\<close> turns a literal of the theory into such a list.
  Python compares strings lexicographically by code point, which is the order of
  \<open>List_Lexorder\<close> on \<open>nat list\<close>.
\<close>

type_synonym pystr = "nat list"

definition ascii :: "string \<Rightarrow> pystr" where
  "ascii s = map of_char s"

text \<open>
  The exceptions the embedded code can raise. \<open>KeyError\<close> carries the missing key and
  \<open>SystemExit\<close> its message; the messages of the others decide nothing.
\<close>

datatype error = KeyError pystr | ValueError | OverflowError | SystemExit pystr

text \<open>
  A row of \<open>csv.DictReader\<close> is a dictionary from field name to text, kept as an association
  list read with \<open>map_of\<close>. \<open>row[k]\<close> raises \<open>KeyError\<close> on a missing key, \<open>row.get(k, d)\<close>
  answers \<open>d\<close> and \<open>row.get(k)\<close> answers \<open>None\<close>. The empty list is the empty dictionary,
  the only falsy one.
\<close>

type_synonym row = "(pystr \<times> pystr) list"

definition getitem :: "row \<Rightarrow> pystr \<Rightarrow> error + pystr" where
  "getitem r k = (case map_of r k of None \<Rightarrow> Inl (KeyError k) | Some v \<Rightarrow> Inr v)"

definition get_or :: "row \<Rightarrow> pystr \<Rightarrow> pystr \<Rightarrow> pystr" where
  "get_or r k d = (case map_of r k of None \<Rightarrow> d | Some v \<Rightarrow> v)"

subsection \<open>\<open>int\<close>, \<open>str.split\<close> and \<open>to_seconds\<close>\<close>

text \<open>
  \<open>int(s)\<close> in base 10: surrounding whitespace is dropped, one sign may follow, then
  decimal digits, where single underscores may stand between two digits. Anything else is
  a \<open>ValueError\<close>. The whitespace is Python's (the ASCII controls 9 to 13, the space and the
  Unicode spaces); of the decimal digits only the ASCII ones are modelled, so a string
  with a digit of another script is answered \<open>ValueError\<close> here where Python converts it.
  The limit of 4300 digits is left out: \<open>main\<close> passes pieces of an 8-character string.
\<close>

definition is_digit :: "nat \<Rightarrow> bool" where
  "is_digit c = (48 \<le> c \<and> c \<le> 57)"

definition is_space :: "nat \<Rightarrow> bool" where
  "is_space c = ((9 \<le> c \<and> c \<le> 13) \<or> c = 32 \<or> c = 133 \<or> c = 160 \<or> c = 5760
     \<or> (8192 \<le> c \<and> c \<le> 8202) \<or> c = 8232 \<or> c = 8233 \<or> c = 8239 \<or> c = 8287 \<or> c = 12288)"

definition strip :: "pystr \<Rightarrow> pystr" where
  "strip s = rev (dropWhile is_space (rev (dropWhile is_space s)))"

fun int_digits :: "pystr \<Rightarrow> nat \<Rightarrow> nat option" where
  "int_digits [] acc = Some acc"
| "int_digits (c # cs) acc =
     (if is_digit c then int_digits cs (10 * acc + (c - 48))
      else if c = 95 then
        (case cs of
           [] \<Rightarrow> None
         | d # ds \<Rightarrow> if is_digit d then int_digits ds (10 * acc + (d - 48)) else None)
      else None)"

definition unsigned_int :: "pystr \<Rightarrow> nat option" where
  "unsigned_int s =
     (case s of
        [] \<Rightarrow> None
      | c # cs \<Rightarrow> if is_digit c then int_digits cs (c - 48) else None)"

definition py_int :: "pystr \<Rightarrow> error + int" where
  "py_int s =
     (let t = strip s;
          neg = (case t of [] \<Rightarrow> False | c # _ \<Rightarrow> c = 45);
          u = (case t of [] \<Rightarrow> [] | c # cs \<Rightarrow> if c = 43 \<or> c = 45 then cs else t)
      in case unsigned_int u of
           None \<Rightarrow> Inl ValueError
         | Some n \<Rightarrow> Inr (if neg then - int n else int n))"

text \<open>\<open>s.split(sep)\<close> for a separator of one character: the pieces between its occurrences.\<close>

fun split :: "nat \<Rightarrow> pystr \<Rightarrow> pystr list" where
  "split sep [] = [[]]"
| "split sep (c # cs) =
     (if c = sep then [] # split sep cs
      else (case split sep cs of [] \<Rightarrow> [[c]] | p # ps \<Rightarrow> (c # p) # ps))"

text \<open>
  \<open>h, m, s = map(int, hhmmss.split(":"))\<close>: the unpacking fails unless there are exactly
  three pieces and \<open>int\<close> fails on a piece that is no number; both are \<open>ValueError\<close>.
\<close>

definition to_seconds :: "pystr \<Rightarrow> error + int" where
  "to_seconds hhmmss =
     (case split 58 hhmmss of
        [a, b, c] \<Rightarrow>
          (case py_int a of Inl e \<Rightarrow> Inl e | Inr h \<Rightarrow>
          (case py_int b of Inl e \<Rightarrow> Inl e | Inr m \<Rightarrow>
          (case py_int c of Inl e \<Rightarrow> Inl e | Inr s \<Rightarrow>
             Inr (h * 3600 + m * 60 + s))))
      | _ \<Rightarrow> Inl ValueError)"

subsection \<open>Dates\<close>

text \<open>
  A \<open>datetime.date\<close> is its fields (year, month, day), compared in that order
  (\<open>Product_Lexorder\<close>). The constructor refuses fields out of range; \<open>toordinal\<close>,
  \<open>fromordinal\<close> and \<open>weekday\<close> follow CPython's proleptic Gregorian arithmetic.
\<close>

type_synonym date = "nat \<times> nat \<times> nat"

definition is_leap :: "nat \<Rightarrow> bool" where
  "is_leap y = (y mod 4 = 0 \<and> (y mod 100 \<noteq> 0 \<or> y mod 400 = 0))"

definition DAYS_IN_MONTH :: "nat list" where
  "DAYS_IN_MONTH = [0, 31, 28, 31, 30, 31, 30, 31, 31, 30, 31, 30, 31]"

definition DAYS_BEFORE_MONTH :: "nat list" where
  "DAYS_BEFORE_MONTH = [0, 0, 31, 59, 90, 120, 151, 181, 212, 243, 273, 304, 334]"

definition days_in_month :: "nat \<Rightarrow> nat \<Rightarrow> nat" where
  "days_in_month y m = (if m = 2 \<and> is_leap y then 29 else DAYS_IN_MONTH ! m)"

definition days_before_year :: "nat \<Rightarrow> nat" where
  "days_before_year year =
     (let y = year - 1 in y * 365 + y div 4 - y div 100 + y div 400)"

definition days_before_month :: "nat \<Rightarrow> nat \<Rightarrow> nat" where
  "days_before_month y m = DAYS_BEFORE_MONTH ! m + (if m > 2 \<and> is_leap y then 1 else 0)"

definition valid_date :: "date \<Rightarrow> bool" where
  "valid_date dt =
     (case dt of (y, m, d) \<Rightarrow>
        1 \<le> y \<and> y \<le> 9999 \<and> 1 \<le> m \<and> m \<le> 12 \<and> 1 \<le> d \<and> d \<le> days_in_month y m)"

definition new_date :: "nat \<Rightarrow> nat \<Rightarrow> nat \<Rightarrow> error + date" where
  "new_date y m d = (if valid_date (y, m, d) then Inr (y, m, d) else Inl ValueError)"

definition toordinal :: "date \<Rightarrow> nat" where
  "toordinal dt = (case dt of (y, m, d) \<Rightarrow> days_before_year y + days_before_month y m + d)"

definition weekday :: "date \<Rightarrow> nat" where
  "weekday dt = (toordinal dt + 6) mod 7"

definition ord2ymd :: "nat \<Rightarrow> date" where
  "ord2ymd ordinal =
     (let n = ordinal - 1;
          n400 = n div 146097; n = n mod 146097;
          n100 = n div 36524; n = n mod 36524;
          n4 = n div 1461; n = n mod 1461;
          n1 = n div 365; n = n mod 365;
          year = n400 * 400 + 1 + n100 * 100 + n4 * 4 + n1
      in if n1 = 4 \<or> n100 = 4 then (year - 1, 12, 31)
         else
           let leapyear = (n1 = 3 \<and> (n4 \<noteq> 24 \<or> n100 = 3));
               month = (n + 50) div 32;
               preceding = DAYS_BEFORE_MONTH ! month + (if month > 2 \<and> leapyear then 1 else 0)
           in if preceding > n
              then (year, month - 1,
                    n - (preceding - (DAYS_IN_MONTH ! (month - 1)
                           + (if month - 1 = 2 \<and> leapyear then 1 else 0))) + 1)
              else (year, month, n - preceding + 1))"

text \<open>
  \<open>datetime.strptime(s, "%Y%m%d").date()\<close>. The format becomes the regular expression
  \<open>(\d\d\d\d)(1[0-2]|0[1-9]|[1-9])(3[0-1]|[1-2]\d|0[1-9]|[1-9]| [1-9])\<close>, matched at the
  start of the string: the first month alternative after which some day alternative
  matches, and the first such day alternative. Text left over after the match, no match
  at all, and fields that are no date are each a \<open>ValueError\<close>. \<open>match_m\<close> and \<open>match_d\<close>
  list the alternatives that match, in order, each with the rest of the string. As for
  \<open>int\<close>, only the ASCII digits are modelled.
\<close>

definition match_m :: "pystr \<Rightarrow> (nat \<times> pystr) list" where
  "match_m s =
     (case s of
        a # b # r \<Rightarrow>
          (if a = 49 \<and> 48 \<le> b \<and> b \<le> 50 then [(10 + (b - 48), r)] else [])
        @ (if a = 48 \<and> 49 \<le> b \<and> b \<le> 57 then [(b - 48, r)] else [])
        @ (if 49 \<le> a \<and> a \<le> 57 then [(a - 48, b # r)] else [])
      | [a] \<Rightarrow> (if 49 \<le> a \<and> a \<le> 57 then [(a - 48, [])] else [])
      | [] \<Rightarrow> [])"

definition match_d :: "pystr \<Rightarrow> (nat \<times> pystr) list" where
  "match_d s =
     (case s of
        a # b # r \<Rightarrow>
          (if a = 51 \<and> 48 \<le> b \<and> b \<le> 49 then [(30 + (b - 48), r)] else [])
        @ (if 49 \<le> a \<and> a \<le> 50 \<and> is_digit b then [(10 * (a - 48) + (b - 48), r)] else [])
        @ (if a = 48 \<and> 49 \<le> b \<and> b \<le> 57 then [(b - 48, r)] else [])
        @ (if 49 \<le> a \<and> a \<le> 57 then [(a - 48, b # r)] else [])
        @ (if a = 32 \<and> 49 \<le> b \<and> b \<le> 57 then [(b - 48, r)] else [])
      | [a] \<Rightarrow> (if 49 \<le> a \<and> a \<le> 57 then [(a - 48, [])] else [])
      | [] \<Rightarrow> [])"

definition strptime_date :: "pystr \<Rightarrow> error + date" where
  "strptime_date s =
     (case s of
        y1 # y2 # y3 # y4 # r \<Rightarrow>
          if is_digit y1 \<and> is_digit y2 \<and> is_digit y3 \<and> is_digit y4 then
            (case concat (map (\<lambda>(m, r'). map (\<lambda>(d, r''). (m, d, r'')) (match_d r')) (match_m r)) of
               [] \<Rightarrow> Inl ValueError
             | (m, d, rest) # _ \<Rightarrow>
                 if rest \<noteq> [] then Inl ValueError
                 else new_date (1000 * (y1 - 48) + 100 * (y2 - 48) + 10 * (y3 - 48) + (y4 - 48)) m d)
          else Inl ValueError
      | _ \<Rightarrow> Inl ValueError)"

subsection \<open>\<open>active_service_ids\<close>\<close>

definition weekday_cols :: "pystr list" where
  "weekday_cols = map ascii [''monday'', ''tuesday'', ''wednesday'', ''thursday'',
     ''friday'', ''saturday'', ''sunday'']"

text \<open>
  The body of the first loop, for one row of \<open>calendar\<close>: the service is added when the
  row's date range contains \<open>today\<close> and its flag for the weekday of \<open>today\<close> is \<open>"1"\<close>. The
  row's fields are read in the order the source reads them, and the weekday flag only
  when the range contains \<open>today\<close> (\<open>and\<close> is lazy).
\<close>

definition apply_rule :: "date \<Rightarrow> row \<Rightarrow> pystr set \<Rightarrow> error + pystr set" where
  "apply_rule today row active =
     (case getitem row (ascii ''start_date'') of Inl e \<Rightarrow> Inl e | Inr sd \<Rightarrow>
     (case strptime_date sd of Inl e \<Rightarrow> Inl e | Inr start \<Rightarrow>
     (case getitem row (ascii ''end_date'') of Inl e \<Rightarrow> Inl e | Inr ed \<Rightarrow>
     (case strptime_date ed of Inl e \<Rightarrow> Inl e | Inr end_d \<Rightarrow>
        if start \<le> today \<and> today \<le> end_d then
          (case getitem row (weekday_cols ! weekday today) of Inl e \<Rightarrow> Inl e | Inr flag \<Rightarrow>
             if flag = ascii ''1'' then
               (case getitem row (ascii ''service_id'') of Inl e \<Rightarrow> Inl e | Inr sid \<Rightarrow>
                  Inr (insert sid active))
             else Inr active)
        else Inr active))))"

fun calendar_loop :: "date \<Rightarrow> row list \<Rightarrow> pystr set \<Rightarrow> error + pystr set" where
  "calendar_loop today [] active = Inr active"
| "calendar_loop today (row # rows) active =
     (case apply_rule today row active of
        Inl e \<Rightarrow> Inl e
      | Inr active' \<Rightarrow> calendar_loop today rows active')"

text \<open>
  The body of the second loop, for one row of \<open>calendar_dates\<close>: a row dated \<open>today\<close> adds
  its service (\<open>"1"\<close>) or removes it when present (\<open>"2"\<close>). The loop runs in table order.
\<close>

definition apply_exception :: "date \<Rightarrow> row \<Rightarrow> pystr set \<Rightarrow> error + pystr set" where
  "apply_exception today cd active =
     (case getitem cd (ascii ''date'') of Inl e \<Rightarrow> Inl e | Inr ds \<Rightarrow>
     (case strptime_date ds of Inl e \<Rightarrow> Inl e | Inr d \<Rightarrow>
        if d = today then
          (case getitem cd (ascii ''service_id'') of Inl e \<Rightarrow> Inl e | Inr sid \<Rightarrow>
          (case getitem cd (ascii ''exception_type'') of Inl e \<Rightarrow> Inl e | Inr et \<Rightarrow>
             if et = ascii ''1'' then Inr (insert sid active)
             else if et = ascii ''2'' \<and> sid \<in> active then Inr (active - {sid})
             else Inr active))
        else Inr active))"

fun calendar_dates_loop :: "date \<Rightarrow> row list \<Rightarrow> pystr set \<Rightarrow> error + pystr set" where
  "calendar_dates_loop today [] active = Inr active"
| "calendar_dates_loop today (cd # cds) active =
     (case apply_exception today cd active of
        Inl e \<Rightarrow> Inl e
      | Inr active' \<Rightarrow> calendar_dates_loop today cds active')"

definition active_service_ids :: "row list \<Rightarrow> row list \<Rightarrow> date \<Rightarrow> error + pystr set" where
  "active_service_ids calendar calendar_dates today =
     (case calendar_loop today calendar {} of
        Inl e \<Rightarrow> Inl e
      | Inr active \<Rightarrow> calendar_dates_loop today calendar_dates active)"

subsection \<open>\<open>str.lower\<close> and substring search\<close>

text \<open>
  \<open>str.lower\<close>, code point by code point. The table is Python's for Basic Latin, the
  Latin-1 Supplement and Latin Extended-A (below U+0180), which hold the Czech alphabet;
  U+0130 lowers to two code points. Above U+017F the model leaves a code point as it is,
  where Python also lowers the capitals of other scripts. No code point above U+017F
  lowers to a character of \<open>STOP_NAME\<close>, so the stop lookup of \<open>main\<close> is not affected.
  \<open>needle in haystack\<close> on strings is \<open>sublist needle haystack\<close>.
\<close>

definition lower_cp :: "nat \<Rightarrow> pystr" where
  "lower_cp c =
     (if 65 \<le> c \<and> c \<le> 90 then [c + 32]
      else if 192 \<le> c \<and> c \<le> 222 \<and> c \<noteq> 215 then [c + 32]
      else if c = 304 then [105, 775]
      else if c = 376 then [255]
      else if ((256 \<le> c \<and> c \<le> 303) \<or> (306 \<le> c \<and> c \<le> 311) \<or> (330 \<le> c \<and> c \<le> 375)) \<and> even c
        then [c + 1]
      else if ((313 \<le> c \<and> c \<le> 328) \<or> (377 \<le> c \<and> c \<le> 382)) \<and> odd c then [c + 1]
      else [c])"

definition lower :: "pystr \<Rightarrow> pystr" where
  "lower s = concat (map lower_cp s)"

subsection \<open>Date and time\<close>

text \<open>
  A \<open>datetime\<close> is its date and its hour, minute, second and microsecond. Two datetimes
  with the same \<open>tzinfo\<close> object are compared field by field, the offset and \<open>fold\<close>
  ignored; every datetime of \<open>main\<close> carries \<open>TZ\<close>, so \<open>\<le>\<close> on the tuple is the
  comparison the script makes. The constructor refuses fields out of range.
\<close>

type_synonym datetime = "date \<times> nat \<times> nat \<times> nat \<times> nat"

definition valid_datetime :: "datetime \<Rightarrow> bool" where
  "valid_datetime dt =
     (case dt of (d, H, M, S, us) \<Rightarrow>
        valid_date d \<and> H < 24 \<and> M < 60 \<and> S < 60 \<and> us < 1000000)"

definition new_datetime :: "date \<Rightarrow> nat \<Rightarrow> nat \<Rightarrow> nat \<Rightarrow> nat \<Rightarrow> error + datetime" where
  "new_datetime d H M S us =
     (if valid_datetime (d, H, M, S, us) then Inr (d, H, M, S, us) else Inl ValueError)"

text \<open>
  \<open>timedelta(seconds=n)\<close>, kept as its number of seconds; its days are limited to
  999999999 either way.
\<close>

definition timedelta_seconds :: "int \<Rightarrow> error + int" where
  "timedelta_seconds n =
     (if - 999999999 \<le> n div 86400 \<and> n div 86400 \<le> 999999999 then Inr n
      else Inl OverflowError)"

text \<open>
  \<open>dt + delta\<close>: the wall-clock fields are turned into days and seconds, the delta is
  added, and the sum is turned back; the time zone plays no part. A day outside
  \<open>1 .. 3652059\<close> (0001-01-01 to 9999-12-31) is an \<open>OverflowError\<close>.
\<close>

definition datetime_add :: "datetime \<Rightarrow> int \<Rightarrow> error + datetime" where
  "datetime_add dt delta =
     (case dt of (d, H, M, S, us) \<Rightarrow>
        let total = int (toordinal d) * 86400 + int (H * 3600 + M * 60 + S) + delta;
            days = total div 86400;
            secs = nat (total mod 86400)
        in if 0 < days \<and> days \<le> 3652059
           then new_datetime (ord2ymd (nat days)) (secs div 3600) (secs mod 3600 div 60) (secs mod 60) us
           else Inl OverflowError)"

text \<open>
  \<open>"%0wd" % n\<close>: the decimal digits of \<open>n\<close>, filled with zeros on the left up to \<open>w\<close>
  characters.
\<close>

fun dec :: "nat \<Rightarrow> pystr" where
  "dec n = (if n < 10 then [48 + n] else dec (n div 10) @ [48 + n mod 10])"

declare dec.simps [simp del]

definition zpad :: "nat \<Rightarrow> nat \<Rightarrow> pystr" where
  "zpad w n = replicate (w - length (dec n)) 48 @ dec n"

text \<open>
  The offsets of \<open>ZoneInfo("Europe/Prague")\<close> are data of the time zone database, so the
  time zone is a parameter: the offset from UTC in seconds of a wall-clock time and its
  \<open>fold\<close>. \<open>isoformat\<close> writes \<open>YYYY-MM-DDTHH:MM:SS\<close>, the microseconds when they are not
  zero, and the offset as \<open>+HH:MM\<close>, with its seconds when they are not zero.
\<close>

type_synonym tzinfo = "bool \<Rightarrow> datetime \<Rightarrow> int"

definition format_offset :: "int \<Rightarrow> pystr" where
  "format_offset off =
     (let a = nat \<bar>off\<bar> in
        (if off < 0 then [45] else [43]) @ zpad 2 (a div 3600) @ [58] @ zpad 2 (a mod 3600 div 60)
        @ (if a mod 60 \<noteq> 0 then [58] @ zpad 2 (a mod 60) else []))"

definition iso_wall :: "datetime \<Rightarrow> pystr" where
  "iso_wall dt =
     (case dt of ((y, m, d), H, M, S, us) \<Rightarrow>
        zpad 4 y @ [45] @ zpad 2 m @ [45] @ zpad 2 d @ [84]
        @ zpad 2 H @ [58] @ zpad 2 M @ [58] @ zpad 2 S)"

definition isoformat :: "tzinfo \<Rightarrow> bool \<Rightarrow> datetime \<Rightarrow> pystr" where
  "isoformat tz fld dt =
     (case dt of (d, H, M, S, us) \<Rightarrow>
        iso_wall dt @ (if us \<noteq> 0 then [46] @ zpad 6 us else []) @ format_offset (tz fld dt))"

definition strftime_HM :: "datetime \<Rightarrow> pystr" where
  "strftime_HM dt = (case dt of (d, H, M, S, us) \<Rightarrow> zpad 2 H @ [58] @ zpad 2 M)"

subsection \<open>\<open>main\<close>\<close>

text \<open>The configuration constants of the script; \<open>STOP_NAME\<close> is the source's literal, whose fourth and eighth characters are U+016F (u with ring).\<close>

definition STOP_NAME :: pystr where
  "STOP_NAME = [74, 97, 110, 367, 118, 32, 100, 367, 108]"

definition ONLY_TRAM :: bool where
  "ONLY_TRAM = True"

definition MAX_RESULTS :: nat where
  "MAX_RESULTS = 14"

text \<open>
  \<open>{s["stop_id"] for s in stops if stop_name.lower() in s["stop_name"].lower()}\<close>: the name
  of every row is read, the identifier only of a row that matches.
\<close>

fun stop_ids_of :: "pystr \<Rightarrow> row list \<Rightarrow> error + pystr set" where
  "stop_ids_of stop_name [] = Inr {}"
| "stop_ids_of stop_name (s # stops) =
     (case getitem s (ascii ''stop_name'') of Inl e \<Rightarrow> Inl e | Inr name \<Rightarrow>
        if sublist (lower stop_name) (lower name) then
          (case getitem s (ascii ''stop_id'') of Inl e \<Rightarrow> Inl e | Inr sid \<Rightarrow>
          (case stop_ids_of stop_name stops of Inl e \<Rightarrow> Inl e | Inr ids \<Rightarrow> Inr (insert sid ids)))
        else stop_ids_of stop_name stops)"

text \<open>\<open>{t[key]: t for t in rows}\<close>: a later row replaces an earlier one with the same key.\<close>

fun index_by :: "pystr \<Rightarrow> row list \<Rightarrow> (pystr \<rightharpoonup> row) \<Rightarrow> error + (pystr \<rightharpoonup> row)" where
  "index_by key [] acc = Inr acc"
| "index_by key (t # rows) acc =
     (case getitem t key of Inl e \<Rightarrow> Inl e | Inr k \<Rightarrow> index_by key rows (acc(k \<mapsto> t)))"

text \<open>\<open>{r["route_id"] for r in routes if r.get("route_type") == "0"}\<close>\<close>

fun tram_route_ids :: "row list \<Rightarrow> error + pystr set" where
  "tram_route_ids [] = Inr {}"
| "tram_route_ids (r # routes) =
     (if map_of r (ascii ''route_type'') = Some (ascii ''0'') then
        (case getitem r (ascii ''route_id'') of Inl e \<Rightarrow> Inl e | Inr rid \<Rightarrow>
        (case tram_route_ids routes of Inl e \<Rightarrow> Inl e | Inr ids \<Rightarrow> Inr (insert rid ids)))
      else tram_route_ids routes)"

text \<open>
  The dictionary appended to \<open>results\<close>. Its fields are the keys of the source's dictionary.
\<close>

record departure =
  time :: pystr
  timestamp :: pystr
  route_short_name :: pystr
  route_long_name :: pystr
  headsign :: pystr
  direction_id :: pystr
  stop_id :: pystr
  stop_sequence :: pystr

text \<open>
  \<open>if active_sids and trip["service_id"] not in active_sids: continue\<close>. The answer is
  whether the record is skipped; \<open>and\<close> is lazy, so the trip's service is read only when the
  set is not empty.
\<close>

definition service_skip :: "pystr set \<Rightarrow> row \<Rightarrow> error + bool" where
  "service_skip active_sids trip =
     (if active_sids \<noteq> {} then
        (case getitem trip (ascii ''service_id'') of Inl e \<Rightarrow> Inl e | Inr sid \<Rightarrow> Inr (sid \<notin> active_sids))
      else Inr False)"

text \<open>
  \<open>if allowed_route_ids is not None and trip["route_id"] not in allowed_route_ids: continue\<close>,
  for a trip whose \<open>route_id\<close> has been read already.
\<close>

definition route_skip :: "pystr set option \<Rightarrow> pystr \<Rightarrow> bool" where
  "route_skip allowed_route_ids rid =
     (case allowed_route_ids of None \<Rightarrow> False | Some ids \<Rightarrow> rid \<notin> ids)"

text \<open>
  The body of the loop over \<open>stop_times\<close> for one record: \<open>None\<close> when the record is passed
  over (\<open>continue\<close>, or a departure before \<open>now\<close>), otherwise the dictionary it appends. The
  instant \<open>dep_dt\<close> is kept beside the dictionary built from it, so that the properties of
  the result can speak about it. \<open>midnight\<close> is \<open>datetime(now.year, now.month, now.day)\<close>.
\<close>

definition departure_of ::
  "pystr set \<Rightarrow> (pystr \<rightharpoonup> row) \<Rightarrow> (pystr \<rightharpoonup> row) \<Rightarrow> pystr set \<Rightarrow> pystr set option
     \<Rightarrow> tzinfo \<Rightarrow> datetime \<Rightarrow> row \<Rightarrow> error + (datetime \<times> departure) option" where
  "departure_of stop_ids trips_by_id routes_by_id active_sids allowed_route_ids tz now st =
     (case getitem st (ascii ''stop_id'') of Inl e \<Rightarrow> Inl e | Inr sid \<Rightarrow>
        if sid \<notin> stop_ids then Inr None
        else
     (case getitem st (ascii ''trip_id'') of Inl e \<Rightarrow> Inl e | Inr tid \<Rightarrow>
     (case trips_by_id tid of None \<Rightarrow> Inr None | Some trip \<Rightarrow>
        if trip = [] then Inr None
        else
     (case service_skip active_sids trip of Inl e \<Rightarrow> Inl e | Inr skip \<Rightarrow>
        if skip then Inr None
        else
     (case getitem trip (ascii ''route_id'') of Inl e \<Rightarrow> Inl e | Inr rid \<Rightarrow>
        let route = (case routes_by_id rid of None \<Rightarrow> [] | Some r \<Rightarrow> r)
        in if route_skip allowed_route_ids rid then Inr None
        else
     (case getitem st (ascii ''departure_time'') of Inl e \<Rightarrow> Inl e | Inr dep_str \<Rightarrow>
        if length dep_str \<noteq> 8 \<or> 58 \<notin> set dep_str then Inr None
        else
     (case to_seconds dep_str of Inl e \<Rightarrow> Inl e | Inr dep_sec \<Rightarrow>
     (case timedelta_seconds dep_sec of Inl e \<Rightarrow> Inl e | Inr delta \<Rightarrow>
     (case datetime_add (fst now, 0, 0, 0, 0) delta of Inl e \<Rightarrow> Inl e | Inr dep_dt \<Rightarrow>
        if dep_dt \<ge> now then
          Inr (Some (dep_dt,
            \<lparr> time = strftime_HM dep_dt,
              timestamp = isoformat tz False dep_dt,
              route_short_name = get_or route (ascii ''route_short_name'') [],
              route_long_name = get_or route (ascii ''route_long_name'') [],
              headsign = get_or trip (ascii ''trip_headsign'') [],
              direction_id = get_or trip (ascii ''direction_id'') [],
              stop_id = sid,
              stop_sequence = get_or st (ascii ''stop_sequence'') [] \<rparr>))
        else Inr None)))))))))"

text \<open>The loop: the first exception ends it; otherwise the appended dictionaries in order.\<close>

fun results_loop ::
  "(row \<Rightarrow> error + (datetime \<times> departure) option) \<Rightarrow> row list
     \<Rightarrow> error + (datetime \<times> departure) list" where
  "results_loop body [] = Inr []"
| "results_loop body (st # stop_times) =
     (case body st of
        Inl e \<Rightarrow> Inl e
      | Inr r \<Rightarrow>
          (case results_loop body stop_times of
             Inl e \<Rightarrow> Inl e
           | Inr rs \<Rightarrow> Inr (case r of None \<Rightarrow> rs | Some x \<Rightarrow> x # rs)))"

text \<open>
  \<open>main\<close> from the stop lookup to the end of the loop, with the constants and the tables as
  arguments: the list \<open>results\<close> before it is sorted. No stop of that name ends the run with
  \<open>SystemExit\<close> and its message.
\<close>

definition exit_message :: "pystr \<Rightarrow> pystr" where
  "exit_message stop_name =
     [78, 101, 110, 97, 108, 101, 122, 101, 110, 121, 32, 382, 225, 100, 110, 233, 32]
     @ ascii ''stop_id pro '' @ [39] @ stop_name @ [39, 46]"

definition results_body ::
  "pystr \<Rightarrow> bool \<Rightarrow> tzinfo \<Rightarrow> datetime \<Rightarrow> row list \<Rightarrow> row list \<Rightarrow> row list \<Rightarrow> row list
     \<Rightarrow> row list \<Rightarrow> row list \<Rightarrow> error + (datetime \<times> departure) list" where
  "results_body stop_name tram tz now stops stop_times trips routes calendar cal_dates =
     (case stop_ids_of stop_name stops of Inl e \<Rightarrow> Inl e | Inr stop_ids \<Rightarrow>
        if stop_ids = {} then Inl (SystemExit (exit_message stop_name))
        else
     (case index_by (ascii ''trip_id'') trips Map.empty of Inl e \<Rightarrow> Inl e | Inr trips_by_id \<Rightarrow>
     (case index_by (ascii ''route_id'') routes Map.empty of Inl e \<Rightarrow> Inl e | Inr routes_by_id \<Rightarrow>
     (case active_service_ids calendar cal_dates (fst now) of Inl e \<Rightarrow> Inl e | Inr active_sids \<Rightarrow>
     (case (if tram then map_sum id Some (tram_route_ids routes) else Inr None) of
        Inl e \<Rightarrow> Inl e | Inr allowed_route_ids \<Rightarrow>
          results_loop
            (departure_of stop_ids trips_by_id routes_by_id active_sids allowed_route_ids tz now)
            stop_times)))))"

text \<open>
  Then \<open>results.sort(key=lambda r: r["timestamp"])\<close>, a stable sort on the timestamp
  strings, as \<open>sort_key\<close> is, and \<open>results[:max_results]\<close>, which is \<open>take\<close>.
\<close>

definition departures_body ::
  "pystr \<Rightarrow> bool \<Rightarrow> nat \<Rightarrow> tzinfo \<Rightarrow> datetime \<Rightarrow> row list \<Rightarrow> row list \<Rightarrow> row list \<Rightarrow> row list
     \<Rightarrow> row list \<Rightarrow> row list \<Rightarrow> error + (datetime \<times> departure) list" where
  "departures_body stop_name tram max_results tz now
       stops stop_times trips routes calendar cal_dates =
     (case results_body stop_name tram tz now stops stop_times trips routes calendar cal_dates of
        Inl e \<Rightarrow> Inl e
      | Inr results \<Rightarrow> Inr (take max_results (sort_key (\<lambda>r. timestamp (snd r)) results)))"

text \<open>The dictionary written to \<open>janudul.json\<close>; an exception leaves no file.\<close>

record out =
  generated_at :: pystr
  stop_name_query :: pystr
  only_tram :: bool
  departures :: "departure list"

definition main_body ::
  "pystr \<Rightarrow> bool \<Rightarrow> nat \<Rightarrow> tzinfo \<Rightarrow> datetime \<Rightarrow> bool \<Rightarrow> row list \<Rightarrow> row list \<Rightarrow> row list
     \<Rightarrow> row list \<Rightarrow> row list \<Rightarrow> row list \<Rightarrow> error + out" where
  "main_body stop_name tram max_results tz now now_fold
       stops stop_times trips routes calendar cal_dates =
     (case departures_body stop_name tram max_results tz now
             stops stop_times trips routes calendar cal_dates of
        Inl e \<Rightarrow> Inl e
      | Inr results \<Rightarrow>
          Inr \<lparr> generated_at = isoformat tz now_fold now,
                stop_name_query = stop_name,
                only_tram = tram,
                departures = map snd results \<rparr>)"

definition main ::
  "tzinfo \<Rightarrow> datetime \<Rightarrow> bool \<Rightarrow> row list \<Rightarrow> row list \<Rightarrow> row list \<Rightarrow> row list \<Rightarrow> row list
     \<Rightarrow> row list \<Rightarrow> error + out" where
  "main tz now now_fold stops stop_times trips routes calendar cal_dates =
     main_body STOP_NAME ONLY_TRAM MAX_RESULTS tz now now_fold
       stops stop_times trips routes calendar cal_dates"

subsection \<open>Vocabulary of the properties\<close>

text \<open>
  A row of \<open>calendar_dates\<close> is dated \<open>today\<close> when its \<open>date\<close> field parses to that date;
  it is an exception for a service when it is dated \<open>today\<close> and names the service; its
  kind is its \<open>exception_type\<close> (\<open>"1"\<close> adds, \<open>"2"\<close> removes).
\<close>

definition dated :: "date \<Rightarrow> row \<Rightarrow> bool" where
  "dated today cd =
     (case map_of cd (ascii ''date'') of None \<Rightarrow> False | Some ds \<Rightarrow> strptime_date ds = Inr today)"

definition exception_for :: "date \<Rightarrow> pystr \<Rightarrow> row \<Rightarrow> bool" where
  "exception_for today sid cd = (dated today cd \<and> map_of cd (ascii ''service_id'') = Some sid)"

definition kind :: "row \<Rightarrow> pystr option" where
  "kind cd = map_of cd (ascii ''exception_type'')"

text \<open>
  Two code points are the same letter up to case when they lower to the same text. A name
  contains a query case-insensitively when some stretch of the name matches the query
  letter by letter up to case. A query is plain when each of its characters lowers to a
  single code point other than \<open>i\<close> and the combining dot above, the two code points that
  the lowering of U+0130 produces.
\<close>

definition same_letter :: "nat \<Rightarrow> nat \<Rightarrow> bool" where
  "same_letter a b = (lower_cp a = lower_cp b)"

definition contains_ci :: "pystr \<Rightarrow> pystr \<Rightarrow> bool" where
  "contains_ci name query =
     (\<exists>before w after. name = before @ w @ after \<and> list_all2 same_letter w query)"

definition plain :: "pystr \<Rightarrow> bool" where
  "plain query = (\<forall>c\<in>set query. \<exists>l. lower_cp c = [l] \<and> l \<noteq> 105 \<and> l \<noteq> 775)"

text \<open>The stops of a table that a query selects: those whose lowered name holds the lowered query.\<close>

definition matching_stop_ids :: "pystr \<Rightarrow> row list \<Rightarrow> pystr set" where
  "matching_stop_ids query stops =
     {sid. \<exists>s\<in>set stops. \<exists>name. map_of s (ascii ''stop_name'') = Some name
        \<and> map_of s (ascii ''stop_id'') = Some sid \<and> sublist (lower query) (lower name)}"

text \<open>
  A departure time \<open>HH:MM:SS\<close> written with six digits, and the number that two digits
  write.
\<close>

definition clock :: "nat \<Rightarrow> nat \<Rightarrow> nat \<Rightarrow> nat \<Rightarrow> nat \<Rightarrow> nat \<Rightarrow> pystr" where
  "clock h1 h2 m1 m2 s1 s2 = [h1, h2, 58, m1, m2, 58, s1, s2]"

definition two_digits :: "nat \<Rightarrow> nat \<Rightarrow> nat" where
  "two_digits a b = 10 * (a - 48) + (b - 48)"

text \<open>A trip with its service replaced: the new binding hides the old one.\<close>

definition with_service :: "(row \<Rightarrow> pystr) \<Rightarrow> row \<Rightarrow> row" where
  "with_service g trip = (ascii ''service_id'', g trip) # trip"

text \<open>
  The absolute instant of a wall-clock time with its \<open>fold\<close>: the seconds on the UTC time
  line, counted from the start of ordinal day 0, that is the wall-clock seconds less the
  offset of the time zone.
\<close>

definition utc_seconds :: "tzinfo \<Rightarrow> bool \<Rightarrow> datetime \<Rightarrow> int" where
  "utc_seconds tz fld dt =
     (case dt of (d, H, M, S, us) \<Rightarrow>
        int (toordinal d) * 86400 + int (H * 3600 + M * 60 + S) - tz fld dt)"

subsection \<open>Sample rows\<close>

text \<open>
  Rows for the worked examples: a rule for Monday to Friday of 2024, and a row of
  \<open>calendar_dates\<close> for a service, a date and a kind.
\<close>

definition weekday_rule :: row where
  "weekday_rule =
     [(ascii ''service_id'', ascii ''WD''),
      (ascii ''monday'', ascii ''1''), (ascii ''tuesday'', ascii ''1''),
      (ascii ''wednesday'', ascii ''1''), (ascii ''thursday'', ascii ''1''),
      (ascii ''friday'', ascii ''1''), (ascii ''saturday'', ascii ''0''),
      (ascii ''sunday'', ascii ''0''),
      (ascii ''start_date'', ascii ''20240101''), (ascii ''end_date'', ascii ''20241231'')]"

definition exception_row :: "string \<Rightarrow> string \<Rightarrow> string \<Rightarrow> row" where
  "exception_row sid d et =
     [(ascii ''service_id'', ascii sid), (ascii ''date'', ascii d), (ascii ''exception_type'', ascii et)]"

text \<open>
  A small feed: two platforms of the stop and one other stop; tram line 3 and bus line 12;
  a trip of each, and a trip on a route that the feed does not list. The time zone of the
  examples is one hour east of UTC throughout.
\<close>

definition stop_row :: "string \<Rightarrow> pystr \<Rightarrow> row" where
  "stop_row sid name = [(ascii ''stop_id'', ascii sid), (ascii ''stop_name'', name)]"

definition sidliste :: pystr where
  "sidliste = STOP_NAME @ ascii '', s'' @ [237] @ ascii ''dli'' @ [353] @ ascii ''t'' @ [283]"

definition smycka :: pystr where
  "smycka = STOP_NAME @ ascii '', smy'' @ [269] @ ascii ''ka''"

definition sample_stops :: "row list" where
  "sample_stops = [stop_row ''S1'' sidliste, stop_row ''S2'' smycka, stop_row ''S3'' (ascii ''Fugnerova'')]"

definition route_row :: "string \<Rightarrow> string \<Rightarrow> string \<Rightarrow> string \<Rightarrow> row" where
  "route_row rid ty short long =
     [(ascii ''route_id'', ascii rid), (ascii ''route_type'', ascii ty),
      (ascii ''route_short_name'', ascii short), (ascii ''route_long_name'', ascii long)]"

definition sample_routes :: "row list" where
  "sample_routes = [route_row ''R3'' ''0'' ''3'' ''Lidove sady - Horni Hanychov'',
                    route_row ''R12'' ''3'' ''12'' ''Fugnerova - Dolni Hanychov'']"

definition trip_row :: "string \<Rightarrow> string \<Rightarrow> string \<Rightarrow> string \<Rightarrow> row" where
  "trip_row tid rid sid sign =
     [(ascii ''trip_id'', ascii tid), (ascii ''route_id'', ascii rid),
      (ascii ''service_id'', ascii sid), (ascii ''trip_headsign'', ascii sign),
      (ascii ''direction_id'', ascii ''0'')]"

definition sample_trips :: "row list" where
  "sample_trips = [trip_row ''T1'' ''R3'' ''WD'' ''Horni Hanychov'',
                   trip_row ''T2'' ''R12'' ''WD'' ''Dolni Hanychov'',
                   trip_row ''T3'' ''R9'' ''WD'' ''Depo'',
                   trip_row ''T4'' ''R3'' ''SAT'' ''Lidove sady'']"

definition stop_time_row :: "string \<Rightarrow> string \<Rightarrow> string \<Rightarrow> string \<Rightarrow> row" where
  "stop_time_row tid sid dep sq =
     [(ascii ''trip_id'', ascii tid), (ascii ''stop_id'', ascii sid),
      (ascii ''departure_time'', ascii dep), (ascii ''stop_sequence'', ascii sq)]"

definition plus_one_hour :: tzinfo where
  "plus_one_hour fld dt = 3600"

text \<open>
  Nine stop times at 10:00:00 on Wednesday 2024-01-03. Five are departures to come of tram
  trip T1 from the two platforms, one of them at this very second and one after midnight;
  the others are a bus, another stop, a service that does not run, and a tram gone a
  second ago.
\<close>

definition sample_now :: datetime where
  "sample_now = ((2024, 1, 3), 10, 0, 0, 0)"

definition sample_stop_times :: "row list" where
  "sample_stop_times =
     [stop_time_row ''T1'' ''S1'' ''25:10:00'' ''5'', stop_time_row ''T1'' ''S2'' ''10:00:00'' ''6'',
      stop_time_row ''T2'' ''S1'' ''10:05:00'' ''1'', stop_time_row ''T1'' ''S3'' ''10:06:00'' ''1'',
      stop_time_row ''T4'' ''S1'' ''10:07:00'' ''1'', stop_time_row ''T1'' ''S1'' ''09:59:59'' ''1'',
      stop_time_row ''T1'' ''S1'' ''11:00:00'' ''1'', stop_time_row ''T1'' ''S2'' ''10:30:00'' ''2'',
      stop_time_row ''T1'' ''S1'' ''23:59:59'' ''9'']"

text \<open>
  The two dictionaries \<open>main\<close> builds from the sample trips and routes, and two further
  stop times: one of the trip whose route the feed does not list, and one whose time has
  eight characters and colons but no numbers.
\<close>

definition sample_trips_by_id :: "pystr \<rightharpoonup> row" where
  "sample_trips_by_id =
     [ascii ''T1'' \<mapsto> trip_row ''T1'' ''R3'' ''WD'' ''Horni Hanychov'',
      ascii ''T2'' \<mapsto> trip_row ''T2'' ''R12'' ''WD'' ''Dolni Hanychov'',
      ascii ''T3'' \<mapsto> trip_row ''T3'' ''R9'' ''WD'' ''Depo'',
      ascii ''T4'' \<mapsto> trip_row ''T4'' ''R3'' ''SAT'' ''Lidove sady'']"

definition sample_routes_by_id :: "pystr \<rightharpoonup> row" where
  "sample_routes_by_id =
     [ascii ''R3'' \<mapsto> route_row ''R3'' ''0'' ''3'' ''Lidove sady - Horni Hanychov'',
      ascii ''R12'' \<mapsto> route_row ''R12'' ''3'' ''12'' ''Fugnerova - Dolni Hanychov'']"

definition unlisted_route_stop_time :: row where
  "unlisted_route_stop_time = stop_time_row ''T3'' ''S1'' ''10:15:00'' ''4''"

definition garbled_stop_time :: row where
  "garbled_stop_time = stop_time_row ''T1'' ''S1'' ''ab:cd:ef'' ''1''"

text \<open>
  The offsets of \<open>Europe/Prague\<close> between 2023-10-29 and 2025-03-30. On 2024-03-31 the
  clocks go from 02:00 to 03:00, and a wall-clock time in the hour that is left out has
  the offset of before the change unless \<open>fold\<close> is set. On 2024-10-27 they go from 03:00
  back to 02:00, and a wall-clock time in the hour that comes twice has the offset of
  before the change unless \<open>fold\<close> is set.
\<close>

definition prague_2024 :: tzinfo where
  "prague_2024 fld dt =
     (if dt < ((2024, 3, 31), 2, 0, 0, 0) then 3600
      else if dt < ((2024, 3, 31), 3, 0, 0, 0) then (if fld then 7200 else 3600)
      else if dt < ((2024, 10, 27), 2, 0, 0, 0) then 7200
      else if dt < ((2024, 10, 27), 3, 0, 0, 0) then (if fld then 3600 else 7200)
      else 3600)"

section \<open>Properties\<close>

subsection \<open>Evaluating the model on sample rows\<close>

lemmas date_eval = strptime_date_def is_digit_def match_m_def match_d_def new_date_def
  valid_date_def days_in_month_def DAYS_IN_MONTH_def is_leap_def toordinal_def weekday_def
  days_before_year_def days_before_month_def DAYS_BEFORE_MONTH_def

lemmas resolver_eval = active_service_ids_def apply_rule_def apply_exception_def getitem_def
  ascii_def weekday_cols_def exception_row_def weekday_rule_def dated_def exception_for_def kind_def

lemmas string_eval = ascii_def lower_def lower_cp_def STOP_NAME_def sublist_code
lemmas time_eval = to_seconds_def py_int_def strip_def is_space_def unsigned_int_def
  timedelta_seconds_def datetime_add_def ord2ymd_def Let_def new_datetime_def valid_datetime_def
  isoformat_def iso_wall_def strftime_HM_def zpad_def dec.simps format_offset_def
lemmas main_eval = results_body_def departures_body_def departure_of_def service_skip_def
  route_skip_def get_or_def
  stop_row_def route_row_def trip_row_def stop_time_row_def sample_stops_def sample_routes_def
  sample_trips_def sample_stop_times_def sample_now_def sidliste_def smycka_def plus_one_hour_def
  exit_message_def

lemmas sample_eval = sample_trips_by_id_def sample_routes_by_id_def unlisted_route_stop_time_def
  garbled_stop_time_def

lemmas zone_eval = utc_seconds_def prague_2024_def

subsection \<open>The service resolver\<close>

lemma kinds_differ [simp]: "ascii ''1'' \<noteq> ascii ''2''" "ascii ''2'' \<noteq> ascii ''1''"
  by (simp_all add: ascii_def)

lemma calendar_dates_loop_append:
  "calendar_dates_loop today (xs @ ys) active =
     (case calendar_dates_loop today xs active of
        Inl e \<Rightarrow> Inl e
      | Inr mid \<Rightarrow> calendar_dates_loop today ys mid)"
  by (induction xs arbitrary: active) (simp_all split: sum.split)

lemma apply_exception_other:
  assumes "apply_exception today cd active = Inr result"
    and "\<not> (exception_for today sid cd \<and> (kind cd = Some (ascii ''1'') \<or> kind cd = Some (ascii ''2'')))"
  shows "sid \<in> result \<longleftrightarrow> sid \<in> active"
  using assms unfolding apply_exception_def getitem_def exception_for_def dated_def kind_def
  by (auto split: option.splits sum.splits if_splits)

lemma apply_exception_add:
  assumes "apply_exception today cd active = Inr result"
    and "exception_for today sid cd" and "kind cd = Some (ascii ''1'')"
  shows "sid \<in> result"
  using assms unfolding apply_exception_def getitem_def exception_for_def dated_def kind_def
  by (auto split: option.splits sum.splits if_splits)

lemma apply_exception_remove:
  assumes "apply_exception today cd active = Inr result"
    and "exception_for today sid cd" and "kind cd = Some (ascii ''2'')"
  shows "sid \<notin> result"
  using assms unfolding apply_exception_def getitem_def exception_for_def dated_def kind_def
  by (auto split: option.splits sum.splits if_splits)

lemma calendar_dates_loop_frame:
  assumes "calendar_dates_loop today cds active = Inr result"
    and "\<forall>c\<in>set cds. \<not> (exception_for today sid c \<and> (kind c = Some (ascii ''1'') \<or> kind c = Some (ascii ''2'')))"
  shows "sid \<in> result \<longleftrightarrow> sid \<in> active"
  using assms
proof (induction cds arbitrary: active)
  case Nil
  then show ?case by simp
next
  case (Cons cd cds)
  from Cons.prems(1) obtain mid where m: "apply_exception today cd active = Inr mid"
    and r: "calendar_dates_loop today cds mid = Inr result"
    by (auto split: sum.splits)
  have "sid \<in> mid \<longleftrightarrow> sid \<in> active"
    using apply_exception_other[OF m] Cons.prems(2) by simp
  moreover have "sid \<in> result \<longleftrightarrow> sid \<in> mid"
    using Cons.IH[OF r] Cons.prems(2) by simp
  ultimately show ?case by simp
qed


lemma apply_exception_keeps_present:
  assumes "apply_exception today cd active = Inr result"
    and "\<not> (exception_for today sid cd \<and> kind cd = Some (ascii ''2''))"
    and "sid \<in> active"
  shows "sid \<in> result"
  using assms unfolding apply_exception_def getitem_def exception_for_def dated_def kind_def
  by (auto split: option.splits sum.splits if_splits)

lemma apply_exception_keeps_absent:
  assumes "apply_exception today cd active = Inr result"
    and "\<not> (exception_for today sid cd \<and> kind cd = Some (ascii ''1''))"
    and "sid \<notin> active"
  shows "sid \<notin> result"
  using assms unfolding apply_exception_def getitem_def exception_for_def dated_def kind_def
  by (auto split: option.splits sum.splits if_splits)

lemma calendar_dates_loop_keeps_present:
  assumes "calendar_dates_loop today cds active = Inr result"
    and "\<forall>c\<in>set cds. \<not> (exception_for today sid c \<and> kind c = Some (ascii ''2''))"
    and "sid \<in> active"
  shows "sid \<in> result"
  using assms
proof (induction cds arbitrary: active)
  case Nil
  then show ?case by simp
next
  case (Cons cd cds)
  from Cons.prems(1) obtain mid where m: "apply_exception today cd active = Inr mid"
    and r: "calendar_dates_loop today cds mid = Inr result"
    by (auto split: sum.splits)
  have "sid \<in> mid"
    using apply_exception_keeps_present[OF m] Cons.prems(2,3) by simp
  then show ?case
    using Cons.IH[OF r] Cons.prems(2) by simp
qed

lemma calendar_dates_loop_keeps_absent:
  assumes "calendar_dates_loop today cds active = Inr result"
    and "\<forall>c\<in>set cds. \<not> (exception_for today sid c \<and> kind c = Some (ascii ''1''))"
    and "sid \<notin> active"
  shows "sid \<notin> result"
  using assms
proof (induction cds arbitrary: active)
  case Nil
  then show ?case by simp
next
  case (Cons cd cds)
  from Cons.prems(1) obtain mid where m: "apply_exception today cd active = Inr mid"
    and r: "calendar_dates_loop today cds mid = Inr result"
    by (auto split: sum.splits)
  have "sid \<notin> mid"
    using apply_exception_keeps_absent[OF m] Cons.prems(2,3) by simp
  then show ?case
    using Cons.IH[OF r] Cons.prems(2) by simp
qed

lemma apply_exception_undated:
  assumes "apply_exception today cd active = Inr result" and "\<not> dated today cd"
  shows "result = active"
  using assms unfolding apply_exception_def getitem_def dated_def
  by (auto split: option.splits sum.splits if_splits)

lemma apply_exception_unknown_kind:
  assumes "apply_exception today cd active = Inr result"
    and "kind cd \<noteq> Some (ascii ''1'')" and "kind cd \<noteq> Some (ascii ''2'')"
  shows "result = active"
  using assms unfolding apply_exception_def getitem_def kind_def
  by (auto split: option.splits sum.splits if_splits)

lemma calendar_dates_loop_dated_only:
  assumes "calendar_dates_loop today cds active = Inr result"
  shows "calendar_dates_loop today (filter (dated today) cds) active = Inr result"
  using assms
proof (induction cds arbitrary: active)
  case Nil
  then show ?case by simp
next
  case (Cons cd cds)
  from Cons.prems obtain mid where m: "apply_exception today cd active = Inr mid"
    and r: "calendar_dates_loop today cds mid = Inr result"
    by (auto split: sum.splits)
  show ?case
  proof (cases "dated today cd")
    case True
    then show ?thesis using m Cons.IH[OF r] by simp
  next
    case False
    then show ?thesis using apply_exception_undated[OF m False] Cons.IH[OF r] by simp
  qed
qed

lemma active_service_ids_split:
  assumes "active_service_ids calendar cds today = Inr result"
  obtains base where "calendar_loop today calendar {} = Inr base"
    and "calendar_dates_loop today cds base = Inr result"
  using assms unfolding active_service_ids_def by (auto split: sum.splits)

lemma calendar_dates_loop_split:
  assumes "calendar_dates_loop today (before @ cd # after) active = Inr result"
  obtains mid mid' where "calendar_dates_loop today before active = Inr mid"
    and "apply_exception today cd mid = Inr mid'"
    and "calendar_dates_loop today after mid' = Inr result"
  using assms by (auto simp: calendar_dates_loop_append split: sum.splits)







text \<open>
  Claim C2, as amended. An exception dated exactly on the target date overrides the
  membership the rules give its service, unless a later row of \<open>calendar_dates\<close> for the same
  service and date has the other kind: kind \<open>"1"\<close> puts the service into the result, whatever
  the rules say, when no later such row has kind \<open>"2"\<close>, and kind \<open>"2"\<close> keeps it out of the
  result when no later such row has kind \<open>"1"\<close>. Rows dated on another date change nothing,
  in any table: the result is that of the rows dated on the target date alone, and two
  tables with the same rows dated on the target date have the same result.
\<close>

theorem exception_overrides_unless_countermanded:
  assumes "active_service_ids calendar calendar_dates today = Inr result"
  shows "(\<forall>before cd after.
            calendar_dates = before @ cd # after
            \<and> exception_for today sid cd \<and> kind cd = Some (ascii ''1'')
            \<and> (\<forall>c\<in>set after. \<not> (exception_for today sid c \<and> kind c = Some (ascii ''2'')))
          \<longrightarrow> sid \<in> result)
       \<and> (\<forall>before cd after.
            calendar_dates = before @ cd # after
            \<and> exception_for today sid cd \<and> kind cd = Some (ascii ''2'')
            \<and> (\<forall>c\<in>set after. \<not> (exception_for today sid c \<and> kind c = Some (ascii ''1'')))
          \<longrightarrow> sid \<notin> result)
       \<and> active_service_ids calendar (filter (dated today) calendar_dates) today = Inr result
       \<and> (\<forall>other result'.
            active_service_ids calendar other today = Inr result'
            \<and> filter (dated today) other = filter (dated today) calendar_dates
          \<longrightarrow> result' = result)"
proof -
  from assms obtain base where b: "calendar_loop today calendar {} = Inr base"
    and l: "calendar_dates_loop today calendar_dates base = Inr result"
    by (rule active_service_ids_split)
  have add: "sid \<in> result"
    if "calendar_dates = before @ cd # after" "exception_for today sid cd"
      "kind cd = Some (ascii ''1'')"
      "\<forall>c\<in>set after. \<not> (exception_for today sid c \<and> kind c = Some (ascii ''2''))"
    for before cd after
  proof -
    from l[unfolded that(1)] obtain mid mid' where s: "apply_exception today cd mid = Inr mid'"
      and a: "calendar_dates_loop today after mid' = Inr result"
      by (rule calendar_dates_loop_split)
    from calendar_dates_loop_keeps_present[OF a that(4)] apply_exception_add[OF s that(2,3)]
    show ?thesis by simp
  qed
  have remove: "sid \<notin> result"
    if "calendar_dates = before @ cd # after" "exception_for today sid cd"
      "kind cd = Some (ascii ''2'')"
      "\<forall>c\<in>set after. \<not> (exception_for today sid c \<and> kind c = Some (ascii ''1''))"
    for before cd after
  proof -
    from l[unfolded that(1)] obtain mid mid' where s: "apply_exception today cd mid = Inr mid'"
      and a: "calendar_dates_loop today after mid' = Inr result"
      by (rule calendar_dates_loop_split)
    from calendar_dates_loop_keeps_absent[OF a that(4)] apply_exception_remove[OF s that(2,3)]
    show ?thesis by simp
  qed
  have dated_only: "active_service_ids calendar (filter (dated today) calendar_dates) today = Inr result"
    using calendar_dates_loop_dated_only[OF l] b by (simp add: active_service_ids_def)
  have other: "result' = result"
    if "active_service_ids calendar other today = Inr result'"
      "filter (dated today) other = filter (dated today) calendar_dates"
    for other result'
  proof -
    from that(1) obtain base' where b': "calendar_loop today calendar {} = Inr base'"
      and l': "calendar_dates_loop today other base' = Inr result'"
      by (rule active_service_ids_split)
    from b b' have "base' = base" by simp
    with calendar_dates_loop_dated_only[OF l'] that(2) calendar_dates_loop_dated_only[OF l]
    show ?thesis by simp
  qed
  from add remove dated_only other show ?thesis by blast
qed

text \<open>
  On 2024-01-03 the removal of WD overrides the rule for Monday to Friday, the addition of
  SAT holds without any rule, and the rows dated 2024-01-04 and 2024-01-02 can be dropped;
  a table whose only row is dated 2024-01-04 gives what the empty table gives.
\<close>

theorem exception_overrides_unless_countermanded_witness:
  "active_service_ids [weekday_rule]
       [exception_row ''WD'' ''20240104'' ''1'', exception_row ''WD'' ''20240103'' ''2'',
        exception_row ''SAT'' ''20240103'' ''1'', exception_row ''SAT'' ''20240102'' ''2'']
       (2024, 1, 3) = Inr {ascii ''SAT''}
   \<and> ascii ''WD'' \<notin> {ascii ''SAT''} \<and> ascii ''SAT'' \<in> {ascii ''SAT''}
   \<and> active_service_ids [weekday_rule]
       [exception_row ''WD'' ''20240103'' ''2'', exception_row ''SAT'' ''20240103'' ''1'']
       (2024, 1, 3) = Inr {ascii ''SAT''}
   \<and> active_service_ids [weekday_rule] [exception_row ''WD'' ''20240104'' ''2''] (2024, 1, 3)
       = Inr {ascii ''WD''}
   \<and> active_service_ids [weekday_rule] [] (2024, 1, 3) = Inr {ascii ''WD''}"
proof -
  let ?x1 = "exception_row ''WD'' ''20240104'' ''1''"
  let ?x2 = "exception_row ''WD'' ''20240103'' ''2''"
  let ?x3 = "exception_row ''SAT'' ''20240103'' ''1''"
  let ?x4 = "exception_row ''SAT'' ''20240102'' ''2''"
  let ?t = "[?x1, ?x2, ?x3, ?x4]"
  have r: "active_service_ids [weekday_rule] ?t (2024, 1, 3) = Inr {ascii ''SAT''}"
    by (simp add: resolver_eval date_eval)
  have s2: "?t = [?x1] @ ?x2 # [?x3, ?x4]" and s3: "?t = [?x1, ?x2] @ ?x3 # [?x4]"
    by simp_all
  have e2: "exception_for (2024, 1, 3) (ascii ''WD'') ?x2" "kind ?x2 = Some (ascii ''2'')"
    "\<forall>c\<in>set [?x3, ?x4]. \<not> (exception_for (2024, 1, 3) (ascii ''WD'') c \<and> kind c = Some (ascii ''1''))"
    by (simp_all add: resolver_eval date_eval)
  have e3: "exception_for (2024, 1, 3) (ascii ''SAT'') ?x3" "kind ?x3 = Some (ascii ''1'')"
    "\<forall>c\<in>set [?x4]. \<not> (exception_for (2024, 1, 3) (ascii ''SAT'') c \<and> kind c = Some (ascii ''2''))"
    by (simp_all add: resolver_eval date_eval)
  have f: "filter (dated (2024, 1, 3)) ?t = [?x2, ?x3]"
    by (simp add: resolver_eval date_eval)
  from exception_overrides_unless_countermanded[OF r, of "ascii ''WD''"] s2 e2
  have a: "ascii ''WD'' \<notin> {ascii ''SAT''}" by blast
  from exception_overrides_unless_countermanded[OF r, of "ascii ''SAT''"] s3 e3
  have b: "ascii ''SAT'' \<in> {ascii ''SAT''}" by blast
  from exception_overrides_unless_countermanded[OF r, of "ascii ''WD''"]
  have c: "active_service_ids [weekday_rule] [?x2, ?x3] (2024, 1, 3) = Inr {ascii ''SAT''}"
    unfolding f by blast
  have r0: "active_service_ids [weekday_rule] [exception_row ''WD'' ''20240104'' ''2''] (2024, 1, 3)
       = Inr {ascii ''WD''}"
    by (simp add: resolver_eval date_eval)
  have f0: "filter (dated (2024, 1, 3)) [exception_row ''WD'' ''20240104'' ''2''] = []"
    by (simp add: resolver_eval date_eval)
  from exception_overrides_unless_countermanded[OF r0, of "ascii ''WD''"]
  have d: "active_service_ids [weekday_rule] [] (2024, 1, 3) = Inr {ascii ''WD''}"
    unfolding f0 by blast
  from r a b c r0 d show ?thesis by simp
qed

text \<open>
  Claim C2 as it is written fails: here a removal of WD is dated exactly on the target
  date, and WD is in the result all the same, because an addition for the same service and
  date follows it in the table.
\<close>

theorem later_add_beats_remove_counterexample:
  "exception_row ''WD'' ''20240103'' ''2''
     \<in> set [exception_row ''WD'' ''20240103'' ''2'', exception_row ''WD'' ''20240103'' ''1'']
   \<and> exception_for (2024, 1, 3) (ascii ''WD'') (exception_row ''WD'' ''20240103'' ''2'')
   \<and> kind (exception_row ''WD'' ''20240103'' ''2'') = Some (ascii ''2'')
   \<and> active_service_ids []
        [exception_row ''WD'' ''20240103'' ''2'', exception_row ''WD'' ''20240103'' ''1'']
        (2024, 1, 3) = Inr {ascii ''WD''}
   \<and> ascii ''WD'' \<in> {ascii ''WD''}"
  by (simp add: resolver_eval date_eval)

text \<open>
  Claim C9. The exceptions dated on the target date are applied in table order, so the
  last exception for a service decides: when no later row is an exception for the same
  service and date, kind \<open>"1"\<close> leaves the service in the result and kind \<open>"2"\<close> leaves it
  out, whatever the earlier rows did. An exception whose kind is neither \<open>"1"\<close> nor \<open>"2"\<close>
  changes nothing: the result is that of the table without the row.
\<close>

theorem exceptions_apply_in_table_order:
  assumes "active_service_ids calendar (before @ cd # after) today = Inr result"
    and "exception_for today sid cd"
  shows "((\<forall>c\<in>set after. \<not> exception_for today sid c) \<longrightarrow>
            (kind cd = Some (ascii ''1'') \<longrightarrow> sid \<in> result)
          \<and> (kind cd = Some (ascii ''2'') \<longrightarrow> sid \<notin> result))
       \<and> (kind cd \<noteq> Some (ascii ''1'') \<and> kind cd \<noteq> Some (ascii ''2'') \<longrightarrow>
            active_service_ids calendar (before @ after) today = Inr result)"
proof -
  from assms(1) obtain base where b: "calendar_loop today calendar {} = Inr base"
    and l: "calendar_dates_loop today (before @ cd # after) base = Inr result"
    by (rule active_service_ids_split)
  from l obtain mid mid' where p: "calendar_dates_loop today before base = Inr mid"
    and s: "apply_exception today cd mid = Inr mid'"
    and a: "calendar_dates_loop today after mid' = Inr result"
    by (rule calendar_dates_loop_split)
  have last: "sid \<in> result \<longleftrightarrow> sid \<in> mid'" if "\<forall>c\<in>set after. \<not> exception_for today sid c"
    using calendar_dates_loop_frame[OF a] that by blast
  have add: "sid \<in> mid'" if "kind cd = Some (ascii ''1'')"
    using apply_exception_add[OF s assms(2) that] .
  have remove: "sid \<notin> mid'" if "kind cd = Some (ascii ''2'')"
    using apply_exception_remove[OF s assms(2) that] .
  have unknown: "active_service_ids calendar (before @ after) today = Inr result"
    if "kind cd \<noteq> Some (ascii ''1'')" "kind cd \<noteq> Some (ascii ''2'')"
  proof -
    have "mid' = mid" using apply_exception_unknown_kind[OF s that] .
    with p a have "calendar_dates_loop today (before @ after) base = Inr result"
      by (simp add: calendar_dates_loop_append)
    with b show ?thesis by (simp add: active_service_ids_def)
  qed
  from last add remove unknown show ?thesis by blast
qed

text \<open>
  An addition after a removal leaves WD in the result, a removal after an addition leaves
  it out, and a row of kind \<open>"3"\<close> can be dropped.
\<close>

theorem exceptions_apply_in_table_order_witness:
  "active_service_ids [weekday_rule]
       [exception_row ''WD'' ''20240103'' ''2'', exception_row ''WD'' ''20240103'' ''1'']
       (2024, 1, 3) = Inr {ascii ''WD''}
   \<and> ascii ''WD'' \<in> {ascii ''WD''}
   \<and> active_service_ids [weekday_rule]
       [exception_row ''WD'' ''20240103'' ''1'', exception_row ''WD'' ''20240103'' ''2'']
       (2024, 1, 3) = Inr {}
   \<and> ascii ''WD'' \<notin> {}
   \<and> active_service_ids [weekday_rule]
       [exception_row ''WD'' ''20240103'' ''2'', exception_row ''WD'' ''20240103'' ''3'']
       (2024, 1, 3) = Inr {}
   \<and> active_service_ids [weekday_rule] [exception_row ''WD'' ''20240103'' ''2''] (2024, 1, 3) = Inr {}"
proof -
  let ?add = "exception_row ''WD'' ''20240103'' ''1''"
  let ?remove = "exception_row ''WD'' ''20240103'' ''2''"
  let ?odd = "exception_row ''WD'' ''20240103'' ''3''"
  have r1: "active_service_ids [weekday_rule] ([?remove] @ ?add # []) (2024, 1, 3) = Inr {ascii ''WD''}"
    and r2: "active_service_ids [weekday_rule] ([?add] @ ?remove # []) (2024, 1, 3) = Inr {}"
    and r3: "active_service_ids [weekday_rule] ([?remove] @ ?odd # []) (2024, 1, 3) = Inr {}"
    by (simp_all add: resolver_eval date_eval)
  have e: "exception_for (2024, 1, 3) (ascii ''WD'') ?add" "kind ?add = Some (ascii ''1'')"
    "exception_for (2024, 1, 3) (ascii ''WD'') ?remove" "kind ?remove = Some (ascii ''2'')"
    "exception_for (2024, 1, 3) (ascii ''WD'') ?odd"
    "kind ?odd \<noteq> Some (ascii ''1'')" "kind ?odd \<noteq> Some (ascii ''2'')"
    by (simp_all add: resolver_eval date_eval)
  from exceptions_apply_in_table_order[OF r1 e(1)] e(2)
  have a: "ascii ''WD'' \<in> {ascii ''WD''}" by simp
  from exceptions_apply_in_table_order[OF r2 e(3)] e(4)
  have b: "ascii ''WD'' \<notin> {}" by simp
  from exceptions_apply_in_table_order[OF r3 e(5)] e(6,7)
  have c: "active_service_ids [weekday_rule] [?remove] (2024, 1, 3) = Inr {}" by simp
  from r1 r2 r3 a b c show ?thesis by simp
qed

subsection \<open>Timestamps compare as instants\<close>

text \<open>
  The fields of a datetime that the constructor accepts fill their columns of the ISO
  string exactly, so the strings of two such datetimes without microseconds compare as
  the datetimes do, whatever offsets the time zone appends.
\<close>


lemma two_digits_eq:
  fixes n m :: nat
  shows "(n div 10 = m div 10 \<and> n mod 10 = m mod 10) \<longleftrightarrow> n = m"
  by (metis div_mult_mod_eq)

lemma two_digits_less:
  fixes n m :: nat
  shows "(n div 10 < m div 10 \<or> n div 10 = m div 10 \<and> n mod 10 < m mod 10) \<longleftrightarrow> n < m"
proof -
  have n: "n = 10 * (n div 10) + n mod 10" and m: "m = 10 * (m div 10) + m mod 10" by simp_all
  have "n mod 10 < 10" "m mod 10 < 10" by simp_all
  then show ?thesis using n m by linarith
qed

lemma dec_digit: "n < 10 \<Longrightarrow> dec n = [48 + n]"
  by (simp add: dec.simps)

lemma dec_two: "10 \<le> n \<Longrightarrow> n < 100 \<Longrightarrow> dec n = [48 + n div 10, 48 + n mod 10]"
  by (subst dec.simps) (simp add: dec_digit)

lemma dec_three:
  assumes "100 \<le> n" "n < 1000"
  shows "dec n = [48 + n div 100, 48 + n div 10 mod 10, 48 + n mod 10]"
proof -
  have "10 \<le> n div 10" "n div 10 < 100" using assms by simp_all
  from dec_two[OF this] have "dec (n div 10) = [48 + n div 10 div 10, 48 + n div 10 mod 10]" .
  moreover have "n div 10 div 10 = n div 100" by (simp add: div_mult2_eq[symmetric])
  moreover have "dec n = dec (n div 10) @ [48 + n mod 10]"
    using assms by (subst dec.simps) simp
  ultimately show ?thesis by simp
qed

lemma dec_four:
  assumes "1000 \<le> n" "n < 10000"
  shows "dec n = [48 + n div 1000, 48 + n div 100 mod 10, 48 + n div 10 mod 10, 48 + n mod 10]"
proof -
  have "100 \<le> n div 10" "n div 10 < 1000" using assms by simp_all
  from dec_three[OF this]
  have "dec (n div 10) = [48 + n div 10 div 100, 48 + n div 10 div 10 mod 10, 48 + n div 10 mod 10]" .
  moreover have "n div 10 div 100 = n div 1000" "n div 10 div 10 = n div 100"
    by (simp_all add: div_mult2_eq[symmetric])
  moreover have "dec n = dec (n div 10) @ [48 + n mod 10]"
    using assms by (subst dec.simps) simp
  ultimately show ?thesis by simp
qed

lemma replicate_2: "replicate 2 x = [x, x]"
  by (simp add: numeral_2_eq_2)

lemma replicate_3: "replicate 3 x = [x, x, x]"
  by (simp add: numeral_3_eq_3)

lemma zpad_2: "n < 100 \<Longrightarrow> zpad 2 n = [48 + n div 10, 48 + n mod 10]"
  by (cases "n < 10") (simp_all add: zpad_def dec_digit dec_two)

lemma zpad_4:
  assumes "n < 10000"
  shows "zpad 4 n = [48 + n div 1000, 48 + n div 100 mod 10, 48 + n div 10 mod 10, 48 + n mod 10]"
proof -
  consider "n < 10" | "10 \<le> n" "n < 100" | "100 \<le> n" "n < 1000" | "1000 \<le> n"
    by linarith
  then show ?thesis
  proof cases
    case 1
    then show ?thesis by (simp add: zpad_def dec_digit replicate_3)
  next
    case 2
    then show ?thesis by (simp add: zpad_def dec_two replicate_2)
  next
    case 3
    then show ?thesis by (simp add: zpad_def dec_three)
  next
    case 4
    with assms show ?thesis by (simp add: zpad_def dec_four)
  qed
qed

lemma mod_100_digits:
  fixes n :: nat
  shows "n mod 100 div 10 = n div 10 mod 10" "n mod 100 mod 10 = n mod 10"
proof -
  have e: "n mod 100 = 10 * (n div 10 mod 10) + n mod 10"
    using mod_mult2_eq[of n 10 10] by simp
  show "n mod 100 div 10 = n div 10 mod 10" unfolding e by simp
  show "n mod 100 mod 10 = n mod 10" unfolding e by simp
qed

lemma div_100_digits:
  fixes n :: nat
  shows "n div 100 div 10 = n div 1000"
  using div_mult2_eq[of n 100 10] by simp

lemma zpad_4_split:
  assumes "n < 10000"
  shows "zpad 4 n = zpad 2 (n div 100) @ zpad 2 (n mod 100)"
proof -
  have h: "n div 100 < 100" "n mod 100 < 100" using assms by simp_all
  show ?thesis
    by (simp add: zpad_4[OF assms] zpad_2[OF h(1)] zpad_2[OF h(2)] mod_100_digits div_100_digits)
qed

lemma hundreds_less:
  fixes n m :: nat
  shows "(n div 100 < m div 100 \<or> n div 100 = m div 100 \<and> n mod 100 < m mod 100) \<longleftrightarrow> n < m"
proof -
  have n: "n = 100 * (n div 100) + n mod 100" and m: "m = 100 * (m div 100) + m mod 100" by simp_all
  have "n mod 100 < 100" "m mod 100 < 100" by simp_all
  then show ?thesis using n m by linarith
qed

lemma append_less_same_length:
  fixes xs ys :: "nat list"
  assumes "length xs = length ys"
  shows "xs @ u < ys @ v \<longleftrightarrow> xs < ys \<or> (xs = ys \<and> u < v)"
  using assms by (induction xs ys rule: list_induct2) auto

lemma length_zpad_2: "n < 100 \<Longrightarrow> length (zpad 2 n) = 2"
  by (simp add: zpad_2)

lemma length_zpad_4: "n < 10000 \<Longrightarrow> length (zpad 4 n) = 4"
  by (simp add: zpad_4)

lemma zpad_2_less:
  assumes "n < 100" "m < 100"
  shows "zpad 2 n < zpad 2 m \<longleftrightarrow> n < m"
  using two_digits_less[of n m] by (simp add: zpad_2 assms)

lemma zpad_2_eq:
  assumes "n < 100" "m < 100"
  shows "zpad 2 n = zpad 2 m \<longleftrightarrow> n = m"
  using two_digits_eq[of n m] by (simp add: zpad_2 assms)

lemma zpad_4_less:
  assumes "n < 10000" "m < 10000"
  shows "zpad 4 n < zpad 4 m \<longleftrightarrow> n < m"
proof -
  have h: "n div 100 < 100" "n mod 100 < 100" "m div 100 < 100" "m mod 100 < 100"
    using assms by simp_all
  have "zpad 4 n < zpad 4 m \<longleftrightarrow>
      zpad 2 (n div 100) < zpad 2 (m div 100)
      \<or> (zpad 2 (n div 100) = zpad 2 (m div 100) \<and> zpad 2 (n mod 100) < zpad 2 (m mod 100))"
    by (simp add: zpad_4_split assms append_less_same_length length_zpad_2 h)
  also have "\<dots> \<longleftrightarrow> n div 100 < m div 100 \<or> (n div 100 = m div 100 \<and> n mod 100 < m mod 100)"
    by (simp add: zpad_2_less zpad_2_eq h)
  also have "\<dots> \<longleftrightarrow> n < m" by (rule hundreds_less)
  finally show ?thesis .
qed

lemma zpad_4_eq:
  assumes "n < 10000" "m < 10000"
  shows "zpad 4 n = zpad 4 m \<longleftrightarrow> n = m"
proof -
  have h: "n div 100 < 100" "n mod 100 < 100" "m div 100 < 100" "m mod 100 < 100"
    using assms by simp_all
  have "zpad 4 n = zpad 4 m \<longleftrightarrow>
      zpad 2 (n div 100) = zpad 2 (m div 100) \<and> zpad 2 (n mod 100) = zpad 2 (m mod 100)"
    by (simp add: zpad_4_split assms length_zpad_2 h)
  also have "\<dots> \<longleftrightarrow> n div 100 = m div 100 \<and> n mod 100 = m mod 100"
    by (simp add: zpad_2_eq h)
  also have "\<dots> \<longleftrightarrow> n = m" by (metis div_mult_mod_eq)
  finally show ?thesis .
qed

text \<open>The fields of a datetime the constructor accepts fit their columns.\<close>

lemma valid_datetime_fields:
  assumes "valid_datetime ((y, m, d), H, M, S, us)"
  shows "y < 10000" "m < 100" "d < 100" "H < 100" "M < 100" "S < 100"
proof -
  from assms have v: "1 \<le> y" "y \<le> 9999" "1 \<le> m" "m \<le> 12" "d \<le> days_in_month y m"
    "H < 24" "M < 60" "S < 60"
    by (simp_all add: valid_datetime_def valid_date_def)
  have "days_in_month y m \<le> 31"
    using v(4) by (simp add: days_in_month_def DAYS_IN_MONTH_def nth_Cons')
  with v show "y < 10000" "m < 100" "d < 100" "H < 100" "M < 100" "S < 100" by simp_all
qed

lemma iso_wall_less:
  assumes "valid_datetime ((y, m, d), H, M, S, us)" and "valid_datetime ((y', m', d'), H', M', S', us')"
  shows "iso_wall ((y, m, d), H, M, S, us) < iso_wall ((y', m', d'), H', M', S', us')
     \<longleftrightarrow> ((y, m, d), H, M, S) < ((y', m', d'), H', M', S')"
proof -
  note a = valid_datetime_fields[OF assms(1)] and b = valid_datetime_fields[OF assms(2)]
  show ?thesis
    unfolding iso_wall_def prod.case
    apply (simp add: append_less_same_length length_zpad_2 length_zpad_4 a b
        zpad_2_less zpad_2_eq zpad_4_less zpad_4_eq less_prod_def)
    apply linarith
    done
qed


lemma length_iso_wall:
  assumes "valid_datetime dt"
  shows "length (iso_wall dt) = 19"
proof -
  obtain y m d H M S us where dt: "dt = ((y, m, d), H, M, S, us)"
    by (metis prod_cases3 prod_cases5)
  note a = valid_datetime_fields[OF assms[unfolded dt]]
  show ?thesis
    unfolding dt iso_wall_def prod.case
    by (simp add: length_zpad_2 length_zpad_4 a)
qed

lemma isoformat_strict_mono:
  assumes "valid_datetime a" and "valid_datetime b"
    and "snd (snd (snd (snd a))) = 0" and "snd (snd (snd (snd b))) = 0"
    and "a < b"
  shows "isoformat tz fld a < isoformat tz fld b"
proof -
  obtain y m d H M S where a: "a = ((y, m, d), H, M, S, 0)"
    using assms(3) by (metis prod.collapse)
  obtain y' m' d' H' M' S' where b: "b = ((y', m', d'), H', M', S', 0)"
    using assms(4) by (metis prod.collapse)
  from assms(5) have "((y, m, d), H, M, S) < ((y', m', d'), H', M', S')"
    unfolding a b by (simp add: less_prod_def) 
  then have "iso_wall a < iso_wall b"
    using iso_wall_less[OF assms(1)[unfolded a] assms(2)[unfolded b]] unfolding a b by simp
  then show ?thesis
    unfolding isoformat_def a b prod.case
    by (simp add: append_less_same_length length_iso_wall assms(1,2)[unfolded a b])
qed

lemma isoformat_le_iff:
  assumes "valid_datetime a" and "valid_datetime b"
    and "snd (snd (snd (snd a))) = 0" and "snd (snd (snd (snd b))) = 0"
  shows "isoformat tz fld a \<le> isoformat tz fld b \<longleftrightarrow> a \<le> b"
proof
  assume l: "isoformat tz fld a \<le> isoformat tz fld b"
  show "a \<le> b"
  proof (rule ccontr)
    assume "\<not> a \<le> b"
    then have "b < a" by simp
    from isoformat_strict_mono[OF assms(2,1,4,3) this, of tz fld] l show False by simp
  qed
next
  assume "a \<le> b"
  then consider "a < b" | "a = b" by (auto simp: le_less)
  then show "isoformat tz fld a \<le> isoformat tz fld b"
  proof cases
    case 1
    from isoformat_strict_mono[OF assms this, of tz fld] show ?thesis by simp
  next
    case 2
    then show ?thesis by simp
  qed
qed

lemma insort_key_cong_order:
  assumes "\<forall>y\<in>set ys. f x \<le> f y \<longleftrightarrow> g x \<le> g y"
  shows "insort_key f x ys = insort_key g x ys"
  using assms by (induction ys) simp_all

lemma sort_key_cong_order:
  fixes f :: "'a \<Rightarrow> 'b::linorder" and g :: "'a \<Rightarrow> 'c::linorder"
  assumes "\<forall>x\<in>set xs. \<forall>y\<in>set xs. f x \<le> f y \<longleftrightarrow> g x \<le> g y"
  shows "sort_key f xs = sort_key g xs"
  using assms
proof (induction xs)
  case Nil
  then show ?case by simp
next
  case (Cons x xs)
  then have ih: "sort_key f xs = sort_key g xs" by simp
  have "insort_key f x (sort_key g xs) = insort_key g x (sort_key g xs)"
    using Cons.prems by (intro insort_key_cong_order) simp
  with ih show ?case by simp
qed

lemma new_datetime_valid:
  assumes "new_datetime d H M S us = Inr dt"
  shows "valid_datetime dt \<and> dt = (d, H, M, S, us)"
  using assms by (auto simp: new_datetime_def split: if_splits)

lemma datetime_add_valid:
  assumes "datetime_add (d, H, M, S, us) delta = Inr dt"
  shows "valid_datetime dt \<and> snd (snd (snd (snd dt))) = us"
  using assms unfolding datetime_add_def prod.case Let_def
  by (auto split: if_splits dest!: new_datetime_valid)

subsection \<open>The loop over the stop times\<close>


lemma timedelta_seconds_Inr: "timedelta_seconds n = Inr k \<Longrightarrow> k = n"
  by (simp add: timedelta_seconds_def split: if_splits)

lemma bind_Inr_iff:
  "(case x of Inl e \<Rightarrow> Inl e | Inr v \<Rightarrow> f v) = Inr r \<longleftrightarrow> (\<exists>v. x = Inr v \<and> f v = Inr r)"
  by (cases x) auto

lemma skip_Some_iff:
  "(if c then Inr None else y) = Inr (Some z) \<longleftrightarrow> \<not> c \<and> y = Inr (Some z)"
  by simp

lemma lookup_Some_iff:
  "(case m of None \<Rightarrow> Inr None | Some t \<Rightarrow> f t) = Inr (Some z) \<longleftrightarrow> (\<exists>t. m = Some t \<and> f t = Inr (Some z))"
  by (cases m) auto

lemma emit_Some_iff:
  "(if c then Inr (Some y) else Inr None) = Inr (Some z) \<longleftrightarrow> c \<and> y = z"
  by simp

lemma getitem_Inr_iff: "getitem r k = Inr v \<longleftrightarrow> map_of r k = Some v"
  by (simp add: getitem_def split: option.splits)

lemma departure_of_SomeD:
  assumes "departure_of stop_ids trips_by_id routes_by_id active_sids allowed tz now st
             = Inr (Some (dep_dt, dep))"
  shows "\<exists>sid tid trip rid dep_str dep_sec.
      map_of st (ascii ''stop_id'') = Some sid \<and> sid \<in> stop_ids
    \<and> map_of st (ascii ''trip_id'') = Some tid \<and> trips_by_id tid = Some trip \<and> trip \<noteq> []
    \<and> service_skip active_sids trip = Inr False
    \<and> map_of trip (ascii ''route_id'') = Some rid \<and> \<not> route_skip allowed rid
    \<and> map_of st (ascii ''departure_time'') = Some dep_str
    \<and> length dep_str = 8 \<and> 58 \<in> set dep_str
    \<and> to_seconds dep_str = Inr dep_sec
    \<and> timedelta_seconds dep_sec = Inr dep_sec
    \<and> datetime_add (fst now, 0, 0, 0, 0) dep_sec = Inr dep_dt
    \<and> now \<le> dep_dt
    \<and> dep = \<lparr> time = strftime_HM dep_dt,
              timestamp = isoformat tz False dep_dt,
              route_short_name =
                get_or (case routes_by_id rid of None \<Rightarrow> [] | Some r \<Rightarrow> r) (ascii ''route_short_name'') [],
              route_long_name =
                get_or (case routes_by_id rid of None \<Rightarrow> [] | Some r \<Rightarrow> r) (ascii ''route_long_name'') [],
              headsign = get_or trip (ascii ''trip_headsign'') [],
              direction_id = get_or trip (ascii ''direction_id'') [],
              stop_id = sid,
              stop_sequence = get_or st (ascii ''stop_sequence'') [] \<rparr>"
  using assms unfolding departure_of_def Let_def
  apply (simp only: bind_Inr_iff skip_Some_iff lookup_Some_iff emit_Some_iff getitem_Inr_iff)
  apply (elim exE conjE)
  apply (frule timedelta_seconds_Inr)
  apply (simp (no_asm_simp))
  apply blast
  done

lemma departure_of_emits:
  assumes "map_of st (ascii ''stop_id'') = Some sid" and "sid \<in> stop_ids"
    and "map_of st (ascii ''trip_id'') = Some tid" and "trips_by_id tid = Some trip" and "trip \<noteq> []"
    and "service_skip active_sids trip = Inr False"
    and "map_of trip (ascii ''route_id'') = Some rid" and "\<not> route_skip allowed rid"
    and "map_of st (ascii ''departure_time'') = Some dep_str"
    and "length dep_str = 8" and "58 \<in> set dep_str"
    and "to_seconds dep_str = Inr dep_sec"
    and "timedelta_seconds dep_sec = Inr dep_sec"
    and "datetime_add (fst now, 0, 0, 0, 0) dep_sec = Inr dep_dt"
  shows "departure_of stop_ids trips_by_id routes_by_id active_sids allowed tz now st =
     Inr (if now \<le> dep_dt then
        Some (dep_dt,
           \<lparr> time = strftime_HM dep_dt,
              timestamp = isoformat tz False dep_dt,
              route_short_name =
                get_or (case routes_by_id rid of None \<Rightarrow> [] | Some r \<Rightarrow> r) (ascii ''route_short_name'') [],
              route_long_name =
                get_or (case routes_by_id rid of None \<Rightarrow> [] | Some r \<Rightarrow> r) (ascii ''route_long_name'') [],
              headsign = get_or trip (ascii ''trip_headsign'') [],
              direction_id = get_or trip (ascii ''direction_id'') [],
              stop_id = sid,
              stop_sequence = get_or st (ascii ''stop_sequence'') [] \<rparr>)
      else None)"
  unfolding departure_of_def Let_def getitem_def
  by (simp add: assms)

lemma departure_of_SomeE:
  assumes "departure_of stop_ids trips_by_id routes_by_id active_sids allowed tz now st
             = Inr (Some (dep_dt, dep))"
  obtains sid tid trip rid dep_str dep_sec where
    "map_of st (ascii ''stop_id'') = Some sid" and "sid \<in> stop_ids"
    and "map_of st (ascii ''trip_id'') = Some tid" and "trips_by_id tid = Some trip" and "trip \<noteq> []"
    and "service_skip active_sids trip = Inr False"
    and "map_of trip (ascii ''route_id'') = Some rid" and "\<not> route_skip allowed rid"
    and "map_of st (ascii ''departure_time'') = Some dep_str"
    and "length dep_str = 8" and "58 \<in> set dep_str"
    and "to_seconds dep_str = Inr dep_sec"
    and "timedelta_seconds dep_sec = Inr dep_sec"
    and "datetime_add (fst now, 0, 0, 0, 0) dep_sec = Inr dep_dt"
    and "now \<le> dep_dt"
    and "dep = \<lparr> time = strftime_HM dep_dt,
              timestamp = isoformat tz False dep_dt,
              route_short_name =
                get_or (case routes_by_id rid of None \<Rightarrow> [] | Some r \<Rightarrow> r) (ascii ''route_short_name'') [],
              route_long_name =
                get_or (case routes_by_id rid of None \<Rightarrow> [] | Some r \<Rightarrow> r) (ascii ''route_long_name'') [],
              headsign = get_or trip (ascii ''trip_headsign'') [],
              direction_id = get_or trip (ascii ''direction_id'') [],
              stop_id = sid,
              stop_sequence = get_or st (ascii ''stop_sequence'') [] \<rparr>"
  using departure_of_SomeD[OF assms] by blast

lemma departure_kept_from_any_earlier_now:
  assumes "departure_of stop_ids trips_by_id routes_by_id active_sids allowed tz now st
             = Inr (Some (dep_dt, dep))"
    and "fst now' = fst now" and "now' \<le> dep_dt"
  shows "departure_of stop_ids trips_by_id routes_by_id active_sids allowed tz now' st
             = Inr (Some (dep_dt, dep))"
proof -
  from assms(1) obtain sid tid trip rid dep_str dep_sec where h:
    "map_of st (ascii ''stop_id'') = Some sid" "sid \<in> stop_ids"
    "map_of st (ascii ''trip_id'') = Some tid" "trips_by_id tid = Some trip" "trip \<noteq> []"
    "service_skip active_sids trip = Inr False"
    "map_of trip (ascii ''route_id'') = Some rid" "\<not> route_skip allowed rid"
    "map_of st (ascii ''departure_time'') = Some dep_str"
    "length dep_str = 8" "58 \<in> set dep_str"
    "to_seconds dep_str = Inr dep_sec"
    "timedelta_seconds dep_sec = Inr dep_sec"
    and a: "datetime_add (fst now, 0, 0, 0, 0) dep_sec = Inr dep_dt"
    and d: "dep = \<lparr> time = strftime_HM dep_dt,
              timestamp = isoformat tz False dep_dt,
              route_short_name =
                get_or (case routes_by_id rid of None \<Rightarrow> [] | Some r \<Rightarrow> r) (ascii ''route_short_name'') [],
              route_long_name =
                get_or (case routes_by_id rid of None \<Rightarrow> [] | Some r \<Rightarrow> r) (ascii ''route_long_name'') [],
              headsign = get_or trip (ascii ''trip_headsign'') [],
              direction_id = get_or trip (ascii ''direction_id'') [],
              stop_id = sid,
              stop_sequence = get_or st (ascii ''stop_sequence'') [] \<rparr>"
    by (rule departure_of_SomeE)
  from a assms(2) have a': "datetime_add (fst now', 0, 0, 0, 0) dep_sec = Inr dep_dt" by simp
  have "departure_of stop_ids trips_by_id routes_by_id active_sids allowed tz now' st
          = Inr (if now' \<le> dep_dt then Some (dep_dt, dep) else None)"
    unfolding d by (rule departure_of_emits) (rule h a')+
  with assms(3) show ?thesis by simp
qed

lemma results_loop_set:
  assumes "results_loop body sts = Inr rs" and "r \<in> set rs"
  shows "\<exists>st\<in>set sts. body st = Inr (Some r)"
  using assms
proof (induction sts arbitrary: rs)
  case Nil
  then show ?case by simp
next
  case (Cons st sts)
  from Cons.prems(1) obtain x rs' where x: "body st = Inr x"
    and l: "results_loop body sts = Inr rs'"
    and rs: "rs = (case x of None \<Rightarrow> rs' | Some y \<Rightarrow> y # rs')"
    by (auto split: sum.splits)
  show ?case
  proof (cases "r \<in> set rs'")
    case True
    from Cons.IH[OF l True] show ?thesis by auto
  next
    case False
    with Cons.prems(2) rs have "x = Some r" by (cases x) auto
    with x show ?thesis by simp
  qed
qed

lemma results_body_emitted:
  assumes "results_body stop_name tram tz now stops stop_times trips routes calendar cal_dates = Inr results"
    and "r \<in> set results"
  shows "\<exists>stop_ids trips_by_id routes_by_id active_sids allowed st.
           departure_of stop_ids trips_by_id routes_by_id active_sids allowed tz now st = Inr (Some r)"
proof -
  from assms(1) obtain stop_ids trips_by_id routes_by_id active_sids allowed where
    "results_loop (departure_of stop_ids trips_by_id routes_by_id active_sids allowed tz now) stop_times
       = Inr results"
    unfolding results_body_def by (auto split: sum.splits if_splits)
  from results_loop_set[OF this assms(2)] show ?thesis by blast
qed

lemma emitted_facts:
  assumes "departure_of stop_ids trips_by_id routes_by_id active_sids allowed tz now st = Inr (Some r)"
  shows "valid_datetime (fst r)" and "snd (snd (snd (snd (fst r)))) = 0" and "now \<le> fst r"
    and "timestamp (snd r) = isoformat tz False (fst r)"
    and "time (snd r) = strftime_HM (fst r)"
proof -
  obtain dt d where r: "r = (dt, d)" by (cases r)
  from assms[unfolded r] obtain dep_sec where a: "datetime_add (fst now, 0, 0, 0, 0) dep_sec = Inr dt"
    and n: "now \<le> dt" and t: "timestamp d = isoformat tz False dt" "time d = strftime_HM dt"
    by (rule departure_of_SomeE) simp
  from datetime_add_valid[OF a] n t
  show "valid_datetime (fst r)" "snd (snd (snd (snd (fst r)))) = 0" "now \<le> fst r"
    "timestamp (snd r) = isoformat tz False (fst r)" "time (snd r) = strftime_HM (fst r)"
    by (simp_all add: r)
qed

lemma sort_by_timestamp_is_sort_by_instant:
  assumes "results_body stop_name tram tz now stops stop_times trips routes calendar cal_dates = Inr results"
  shows "sort_key (\<lambda>r. timestamp (snd r)) results = sort_key fst results"
proof (rule sort_key_cong_order, intro ballI)
  fix x y assume "x \<in> set results" "y \<in> set results"
  from results_body_emitted[OF assms this(1)] results_body_emitted[OF assms this(2)]
  obtain S T R A L st S' T' R' A' L' st' where
    x: "departure_of S T R A L tz now st = Inr (Some x)" and
    y: "departure_of S' T' R' A' L' tz now st' = Inr (Some y)" by blast
  show "timestamp (snd x) \<le> timestamp (snd y) \<longleftrightarrow> fst x \<le> fst y"
    using isoformat_le_iff[OF emitted_facts(1)[OF x] emitted_facts(1)[OF y]
        emitted_facts(2)[OF x] emitted_facts(2)[OF y], of tz False]
    by (simp add: emitted_facts(4)[OF x] emitted_facts(4)[OF y])
qed

lemma take_drop_sorted_bound:
  assumes "sorted (map f xs)" and "a \<in> set (take n xs)" and "b \<in> set (drop n xs)"
  shows "f a \<le> f b"
proof -
  from assms(2) obtain i where i: "i < length (take n xs)" "take n xs ! i = a"
    by (auto simp: in_set_conv_nth)
  from assms(3) obtain j where j: "j < length (drop n xs)" "drop n xs ! j = b"
    by (auto simp: in_set_conv_nth)
  from i have ia: "i < n" "i < length xs" "xs ! i = a" by simp_all
  from j have jb: "n + j < length xs" "xs ! (n + j) = b" by simp_all
  have "map f xs ! i \<le> map f xs ! (n + j)"
    using assms(1) ia(1) jb(1) by (intro sorted_nth_mono) simp_all
  with ia jb show ?thesis by simp
qed

text \<open>
  Claim C4, as amended. The instant of a departure is here its civil date and time, the
  wall-clock fields of \<open>dep_dt\<close>, and instants are compared field by field, as the script
  compares \<open>dep_dt\<close> with \<open>now\<close>; the offset from UTC plays no part. In this order the list
  \<open>main\<close> is left with after sorting and truncating is the list of the departures the
  loop collected, sorted (the script sorts the timestamp strings, which comes to the same)
  and cut to its first \<open>max_results\<close> elements. So it is sorted by civil time, no
  departure in it is before \<open>now\<close> in civil time, it has at most \<open>max_results\<close> entries,
  and every departure left out is no earlier than every departure kept. A departure at
  \<open>now\<close> itself is kept: a record that yields a departure for some \<open>now\<close> yields the same
  one for every reference instant of the same day up to and including its own instant.
\<close>

theorem departures_sorted_from_now_smallest_first:
  assumes "departures_body stop_name tram max_results tz now
             stops stop_times trips routes calendar cal_dates = Inr out"
  shows "\<exists>results.
           results_body stop_name tram tz now stops stop_times trips routes calendar cal_dates
             = Inr results
         \<and> out = take max_results (sort_key fst results)
         \<and> mset (out @ drop max_results (sort_key fst results)) = mset results
         \<and> (\<forall>a\<in>set out. \<forall>b\<in>set (drop max_results (sort_key fst results)). fst a \<le> fst b)
         \<and> sorted (map fst out)
         \<and> (\<forall>r\<in>set results. now \<le> fst r)
         \<and> (\<forall>r\<in>set out. now \<le> fst r)
         \<and> length out = min max_results (length results)
         \<and> length out \<le> max_results
         \<and> (\<forall>S T R A L st dt dep now'.
               departure_of S T R A L tz now st = Inr (Some (dt, dep))
               \<and> fst now' = fst now \<and> now' \<le> dt
               \<longrightarrow> departure_of S T R A L tz now' st = Inr (Some (dt, dep)))"
proof -
  from assms obtain results where
    rb: "results_body stop_name tram tz now stops stop_times trips routes calendar cal_dates = Inr results"
    and o: "out = take max_results (sort_key (\<lambda>r. timestamp (snd r)) results)"
    unfolding departures_body_def by (auto split: sum.splits)
  let ?s = "sort_key fst results"
  have out: "out = take max_results ?s"
    using o sort_by_timestamp_is_sort_by_instant[OF rb] by simp
  have perm: "mset (out @ drop max_results ?s) = mset results"
    unfolding out by simp
  have srt: "sorted (map fst ?s)" by (rule sorted_sort_key)
  have small: "\<forall>a\<in>set out. \<forall>b\<in>set (drop max_results ?s). fst a \<le> fst b"
    unfolding out using take_drop_sorted_bound[OF srt] by blast
  have so: "sorted (map fst out)"
    unfolding out take_map[symmetric] using srt by (rule sorted_wrt_take)
  have fut: "\<forall>r\<in>set results. now \<le> fst r"
  proof
    fix r assume "r \<in> set results"
    from results_body_emitted[OF rb this] emitted_facts(3) show "now \<le> fst r" by blast
  qed
  have fut': "\<forall>r\<in>set out. now \<le> fst r"
  proof
    fix r assume "r \<in> set out"
    then have "r \<in> set ?s" unfolding out by (rule in_set_takeD)
    then have "r \<in> set results" by simp
    with fut show "now \<le> fst r" by blast
  qed
  have len: "length out = min max_results (length results)"
    unfolding out by (simp add: min.commute)
  have le: "length out \<le> max_results"
    unfolding out by simp
  have kept: "\<forall>S T R A L st dt dep now'.
               departure_of S T R A L tz now st = Inr (Some (dt, dep))
               \<and> fst now' = fst now \<and> now' \<le> dt
               \<longrightarrow> departure_of S T R A L tz now' st = Inr (Some (dt, dep))"
    using departure_kept_from_any_earlier_now by blast
  from rb out perm small so fut fut' len le kept show ?thesis by blast
qed

text \<open>
  The sample feed with a limit of two: of the five departures to come, the one at 10:00:00,
  the reference instant itself, and the one at 10:30:00 are returned, in this order.
\<close>

lemma sample_results:
  "map_sum id (map fst)
     (results_body STOP_NAME True plus_one_hour sample_now
        sample_stops sample_stop_times sample_trips sample_routes [weekday_rule] [])
   = Inr [((2024, 1, 4), 1, 10, 0, 0), ((2024, 1, 3), 10, 0, 0, 0), ((2024, 1, 3), 11, 0, 0, 0),
          ((2024, 1, 3), 10, 30, 0, 0), ((2024, 1, 3), 23, 59, 59, 0)]"
  by (simp add: main_eval string_eval time_eval resolver_eval date_eval)

lemma sample_departures:
  "map_sum id (map fst)
     (departures_body STOP_NAME True 2 plus_one_hour sample_now
        sample_stops sample_stop_times sample_trips sample_routes [weekday_rule] [])
   = Inr [((2024, 1, 3), 10, 0, 0, 0), ((2024, 1, 3), 10, 30, 0, 0)]"
  by (simp add: main_eval string_eval time_eval resolver_eval date_eval)

theorem departures_sorted_from_now_smallest_first_witness:
  "map_sum id (map fst)
     (departures_body STOP_NAME True 2 plus_one_hour sample_now
        sample_stops sample_stop_times sample_trips sample_routes [weekday_rule] [])
     = Inr [((2024, 1, 3), 10, 0, 0, 0), ((2024, 1, 3), 10, 30, 0, 0)]
   \<and> map_sum id (map fst)
     (results_body STOP_NAME True plus_one_hour sample_now
        sample_stops sample_stop_times sample_trips sample_routes [weekday_rule] [])
     = Inr [((2024, 1, 4), 1, 10, 0, 0), ((2024, 1, 3), 10, 0, 0, 0), ((2024, 1, 3), 11, 0, 0, 0),
            ((2024, 1, 3), 10, 30, 0, 0), ((2024, 1, 3), 23, 59, 59, 0)]
   \<and> sorted ([((2024, 1, 3), 10, 0, 0, 0), ((2024, 1, 3), 10, 30, 0, 0)] :: datetime list)
   \<and> sample_now \<le> ((2024, 1, 3), 10, 0, 0, 0)
   \<and> sample_now \<le> ((2024, 1, 3), 10, 30, 0, 0)
   \<and> length ([((2024, 1, 3), 10, 0, 0, 0), ((2024, 1, 3), 10, 30, 0, 0)] :: datetime list) \<le> 2"
proof -
  let ?d = "departures_body STOP_NAME True 2 plus_one_hour sample_now
        sample_stops sample_stop_times sample_trips sample_routes [weekday_rule] []"
  let ?l = "[((2024, 1, 3), 10, 0, 0, 0), ((2024, 1, 3), 10, 30, 0, 0)] :: datetime list"
  have d: "map_sum id (map fst) ?d = Inr ?l"
    by (rule sample_departures)
  then obtain out where o: "?d = Inr out" and m: "map fst out = ?l"
    by (cases ?d) auto
  from departures_sorted_from_now_smallest_first[OF o]
  have s: "sorted (map fst out)" and f: "\<forall>r\<in>set out. sample_now \<le> fst r"
    and l: "length out \<le> 2"
    by blast+
  from f have "\<forall>t\<in>set (map fst out). sample_now \<le> t" by simp
  with s l m have "sorted ?l" "sample_now \<le> ((2024, 1, 3), 10, 0, 0, 0)"
    "sample_now \<le> ((2024, 1, 3), 10, 30, 0, 0)" "length ?l \<le> 2"
    by simp_all
  with d sample_results show ?thesis by blast
qed

text \<open>
  Claim C4 as it is written, about absolute instants, fails on the days the clocks change.
  On 2024-03-31 the stop times 02:30:00 and 03:00:00 are listed in this order, while on the
  UTC time line the first is half an hour after the second. On 2024-10-27 at 02:15 of the
  second pass through that hour the stop time 02:30:00 is listed, while on the UTC time
  line it was 45 minutes earlier.
\<close>

theorem wall_clock_order_is_not_absolute_order_counterexample:
  "map_sum id (map (\<lambda>r. (timestamp (snd r), utc_seconds prague_2024 False (fst r))))
     (departures_body STOP_NAME True 14 prague_2024 ((2024, 3, 31), 0, 30, 0, 0) sample_stops
        [stop_time_row ''T1'' ''S1'' ''03:00:00'' ''1'', stop_time_row ''T1'' ''S2'' ''02:30:00'' ''2'']
        sample_trips sample_routes [] [])
     = Inr [(ascii ''2024-03-31T02:30:00+01:00'', 63847531800),
            (ascii ''2024-03-31T03:00:00+02:00'', 63847530000)]
   \<and> \<not> sorted [63847531800, 63847530000 :: int]
   \<and> map_sum id (map (\<lambda>r. (timestamp (snd r), utc_seconds prague_2024 False (fst r))))
     (departures_body STOP_NAME True 14 prague_2024 ((2024, 10, 27), 2, 15, 0, 0) sample_stops
        [stop_time_row ''T1'' ''S1'' ''02:30:00'' ''1'']
        sample_trips sample_routes [] [])
     = Inr [(ascii ''2024-10-27T02:30:00+02:00'', 63865672200)]
   \<and> isoformat prague_2024 True ((2024, 10, 27), 2, 15, 0, 0) = ascii ''2024-10-27T02:15:00+01:00''
   \<and> utc_seconds prague_2024 True ((2024, 10, 27), 2, 15, 0, 0) = 63865674900
   \<and> (63865672200 :: int) < 63865674900"
  by (simp add: zone_eval main_eval string_eval time_eval resolver_eval date_eval)


subsection \<open>The stop lookup\<close>


lemma stop_ids_of_matching:
  assumes "stop_ids_of query stops = Inr ids"
  shows "ids = matching_stop_ids query stops"
  using assms
proof (induction stops arbitrary: ids)
  case Nil
  then show ?case by (simp add: matching_stop_ids_def)
next
  case (Cons s stops)
  from Cons.prems obtain name where n: "map_of s (ascii ''stop_name'') = Some name"
    by (auto simp: getitem_def split: option.splits sum.splits)
  have step: "matching_stop_ids query (s # stops) =
      (if sublist (lower query) (lower name)
       then (case map_of s (ascii ''stop_id'') of None \<Rightarrow> {} | Some sid \<Rightarrow> {sid}) else {})
      \<union> matching_stop_ids query stops"
    using n by (auto simp: matching_stop_ids_def split: option.splits)
  show ?case
  proof (cases "sublist (lower query) (lower name)")
    case True
    with Cons.prems n obtain sid ids' where s: "map_of s (ascii ''stop_id'') = Some sid"
      and r: "stop_ids_of query stops = Inr ids'" and i: "ids = insert sid ids'"
      by (auto simp: getitem_def split: option.splits sum.splits)
    from Cons.IH[OF r] i s True show ?thesis by (simp add: step)
  next
    case False
    with Cons.prems n have "stop_ids_of query stops = Inr ids"
      by (simp add: getitem_def)
    from Cons.IH[OF this] False show ?thesis by (simp add: step)
  qed
qed

lemma stop_ids_of_total:
  assumes "\<forall>s\<in>set stops. map_of s (ascii ''stop_name'') \<noteq> None \<and> map_of s (ascii ''stop_id'') \<noteq> None"
  shows "\<exists>ids. stop_ids_of query stops = Inr ids"
  using assms
proof (induction stops)
  case Nil
  then show ?case by simp
next
  case (Cons s stops)
  then obtain ids name sid where "stop_ids_of query stops = Inr ids"
    "map_of s (ascii ''stop_name'') = Some name" "map_of s (ascii ''stop_id'') = Some sid"
    by auto
  then show ?case by (simp add: getitem_def)
qed

lemma lower_append: "lower (xs @ ys) = lower xs @ lower ys"
  by (simp add: lower_def)

lemma lower_same_letters:
  assumes "list_all2 same_letter w query"
  shows "lower w = lower query"
  using assms by (induction rule: list_all2_induct) (simp_all add: lower_def same_letter_def)

lemma contains_ci_imp_sublist:
  assumes "contains_ci name query"
  shows "sublist (lower query) (lower name)"
proof -
  from assms obtain before w after where n: "name = before @ w @ after"
    and w: "list_all2 same_letter w query"
    by (auto simp: contains_ci_def)
  have "lower name = lower before @ lower query @ lower after"
    by (simp add: n lower_append lower_same_letters[OF w])
  then show ?thesis by (auto simp: sublist_def)
qed

lemma lower_cp_shape: "(\<exists>l. lower_cp c = [l]) \<or> lower_cp c = [105, 775]"
  by (simp add: lower_cp_def)

lemma plain_lower: "plain query \<Longrightarrow> 105 \<notin> set (lower query) \<and> 775 \<notin> set (lower query)"
  by (induction query) (auto simp: plain_def lower_def)

lemma prefix_lower_aligned:
  assumes "prefix xs (lower name)" and "105 \<notin> set xs" and "775 \<notin> set xs"
  shows "\<exists>w after. name = w @ after \<and> lower w = xs \<and> (\<forall>c\<in>set w. \<exists>l. lower_cp c = [l])"
  using assms
proof (induction name arbitrary: xs)
  case Nil
  then show ?case by (simp add: lower_def)
next
  case (Cons c name)
  show ?case
  proof (cases xs)
    case Nil
    then show ?thesis
      by (intro exI[of _ "[]"] exI[of _ "c # name"]) (simp add: lower_def)
  next
    case (Cons x xs')
    from lower_cp_shape[of c] show ?thesis
    proof
      assume "\<exists>l. lower_cp c = [l]"
      then obtain l where l: "lower_cp c = [l]" by blast
      with Cons.prems(1) Cons have "x = l" "prefix xs' (lower name)"
        by (simp_all add: lower_def)
      moreover from Cons.prems(2,3) Cons have "105 \<notin> set xs'" "775 \<notin> set xs'" by simp_all
      ultimately obtain w after where "name = w @ after" "lower w = xs'"
        "\<forall>c\<in>set w. \<exists>l. lower_cp c = [l]"
        using Cons.IH by blast
      with l \<open>x = l\<close> Cons show ?thesis
        by (intro exI[of _ "c # w"] exI[of _ after]) (simp add: lower_def)
    next
      assume "lower_cp c = [105, 775]"
      with Cons.prems(1) Cons have "x = 105" by (simp add: lower_def)
      with Cons.prems(2) Cons show ?thesis by simp
    qed
  qed
qed

lemma sublist_lower_aligned:
  assumes "sublist xs (lower name)" and "105 \<notin> set xs" and "775 \<notin> set xs"
  shows "\<exists>before w after. name = before @ w @ after \<and> lower w = xs
           \<and> (\<forall>c\<in>set w. \<exists>l. lower_cp c = [l])"
  using assms(1)
proof (induction name)
  case Nil
  then show ?case by (intro exI[of _ "[]"]) (simp add: lower_def)
next
  case (Cons c name)
  have tail: ?case if "sublist xs (lower name)"
  proof -
    from Cons.IH[OF that] obtain before w after where "name = before @ w @ after" "lower w = xs"
      "\<forall>c\<in>set w. \<exists>l. lower_cp c = [l]" by blast
    then show ?thesis by (intro exI[of _ "c # before"] exI[of _ w] exI[of _ after]) simp
  qed
  have head: ?case if "prefix xs (lower (c # name))"
  proof -
    from prefix_lower_aligned[OF that assms(2,3)] obtain w after where
      "c # name = w @ after" "lower w = xs" "\<forall>c\<in>set w. \<exists>l. lower_cp c = [l]" by blast
    then show ?thesis by (intro exI[of _ "[]"] exI[of _ w] exI[of _ after]) simp
  qed
  have empty: ?case if "xs = []"
    using that by (intro exI[of _ "[]"] exI[of _ "c # name"]) (simp add: lower_def)
  from lower_cp_shape[of c] show ?case
  proof
    assume "\<exists>l. lower_cp c = [l]"
    then obtain l where l: "lower_cp c = [l]" by blast
    then have "lower (c # name) = l # lower name" by (simp add: lower_def)
    with Cons.prems have "prefix xs (lower (c # name)) \<or> sublist xs (lower name)"
      by (simp add: sublist_Cons_right)
    with head tail show ?thesis by blast
  next
    assume two: "lower_cp c = [105, 775]"
    then have e: "lower (c # name) = 105 # 775 # lower name" by (simp add: lower_def)
    with Cons.prems have "prefix xs (105 # 775 # lower name) \<or> prefix xs (775 # lower name)
        \<or> sublist xs (lower name)"
      by (simp add: sublist_Cons_right)
    then consider "xs = []" | "sublist xs (lower name)"
      using assms(2,3) by (cases xs) (auto simp: prefix_Cons)
    then show ?thesis using empty tail by cases
  qed
qed

lemma same_lower_letters:
  assumes "lower w = lower query" and "\<forall>c\<in>set w. \<exists>l. lower_cp c = [l]"
    and "\<forall>c\<in>set query. \<exists>l. lower_cp c = [l]"
  shows "list_all2 same_letter w query"
  using assms
proof (induction w arbitrary: query)
  case Nil
  then show ?case by (cases query) (auto simp: lower_def)
next
  case (Cons c w)
  from Cons.prems(2) obtain l where l: "lower_cp c = [l]" by auto
  show ?case
  proof (cases query)
    case Nil
    with Cons.prems(1) l show ?thesis by (simp add: lower_def)
  next
    case (Cons q query')
    with Cons.prems(3) obtain k where k: "lower_cp q = [k]" by auto
    from Cons.prems(1) l k Cons have "l = k" "lower w = lower query'"
      by (simp_all add: lower_def)
    with Cons.IH[of query'] Cons.prems(2,3) Cons l k show ?thesis
      by (simp add: same_letter_def)
  qed
qed

lemma plain_contains_ci_iff:
  assumes "plain query"
  shows "sublist (lower query) (lower name) \<longleftrightarrow> contains_ci name query"
proof
  assume "sublist (lower query) (lower name)"
  from sublist_lower_aligned[OF this] plain_lower[OF assms]
  obtain before w after where n: "name = before @ w @ after" and w: "lower w = lower query"
    and s: "\<forall>c\<in>set w. \<exists>l. lower_cp c = [l]" by blast
  from assms have "\<forall>c\<in>set query. \<exists>l. lower_cp c = [l]" by (auto simp: plain_def)
  from same_lower_letters[OF w s this] n show "contains_ci name query"
    by (auto simp: contains_ci_def)
qed (rule contains_ci_imp_sublist)

lemma plain_STOP_NAME: "plain STOP_NAME"
  by (simp add: plain_def STOP_NAME_def lower_cp_def)

lemma u_ring_letters: "same_letter c 367 \<longleftrightarrow> c = 366 \<or> c = 367"
  unfolding same_letter_def lower_cp_def by (simp split: if_splits) presburger

text \<open>
  Claim C8. The stop identifiers \<open>main\<close> resolves are exactly those of the stops whose
  lowered name holds the lowered query, and every table whose rows have a name and an
  identifier is resolved. A name that contains the query letter by letter up to case
  is selected; for a plain query, as \<open>STOP_NAME\<close> is, the selected names are exactly those.
  Diacritics are not folded: only U+016E and U+016F are the same letter as U+016F.
\<close>

theorem stop_lookup_is_case_insensitive_containment:
  "(\<forall>ids. stop_ids_of query stops = Inr ids \<longrightarrow> ids = matching_stop_ids query stops)
   \<and> ((\<forall>s\<in>set stops. map_of s (ascii ''stop_name'') \<noteq> None \<and> map_of s (ascii ''stop_id'') \<noteq> None)
        \<longrightarrow> stop_ids_of query stops = Inr (matching_stop_ids query stops))
   \<and> (\<forall>name. contains_ci name query \<longrightarrow> sublist (lower query) (lower name))
   \<and> (plain query \<longrightarrow> (\<forall>name. sublist (lower query) (lower name) \<longleftrightarrow> contains_ci name query))
   \<and> plain STOP_NAME
   \<and> (\<forall>c. same_letter c 367 \<longleftrightarrow> c = 366 \<or> c = 367)"
proof -
  have a: "\<forall>ids. stop_ids_of query stops = Inr ids \<longrightarrow> ids = matching_stop_ids query stops"
    using stop_ids_of_matching by blast
  have b: "stop_ids_of query stops = Inr (matching_stop_ids query stops)"
    if "\<forall>s\<in>set stops. map_of s (ascii ''stop_name'') \<noteq> None \<and> map_of s (ascii ''stop_id'') \<noteq> None"
  proof -
    from stop_ids_of_total[OF that] obtain ids where i: "stop_ids_of query stops = Inr ids" ..
    with stop_ids_of_matching[OF i] show ?thesis by simp
  qed
  have c: "\<forall>name. contains_ci name query \<longrightarrow> sublist (lower query) (lower name)"
    using contains_ci_imp_sublist by blast
  have d: "plain query \<longrightarrow> (\<forall>name. sublist (lower query) (lower name) \<longleftrightarrow> contains_ci name query)"
    using plain_contains_ci_iff by blast
  from a b c d plain_STOP_NAME u_ring_letters show ?thesis by blast
qed

text \<open>
  The two platforms of the sample table are selected, an upper-case spelling of the name
  would be, and the spelling without the rings is not.
\<close>

lemma sample_stop_ids: "stop_ids_of STOP_NAME sample_stops = Inr {ascii ''S1'', ascii ''S2''}"
  by (simp add: main_eval string_eval getitem_def)

theorem stop_lookup_is_case_insensitive_containment_witness:
  "stop_ids_of STOP_NAME sample_stops = Inr {ascii ''S1'', ascii ''S2''}
   \<and> matching_stop_ids STOP_NAME sample_stops = {ascii ''S1'', ascii ''S2''}
   \<and> contains_ci sidliste STOP_NAME \<and> contains_ci smycka STOP_NAME
   \<and> contains_ci [74, 65, 78, 366, 86, 32, 68, 366, 76] STOP_NAME
   \<and> \<not> contains_ci (ascii ''Januv dul'') STOP_NAME
   \<and> \<not> same_letter 117 367"
proof -
  note t = stop_lookup_is_case_insensitive_containment[of STOP_NAME sample_stops]
  from t sample_stop_ids have m: "matching_stop_ids STOP_NAME sample_stops = {ascii ''S1'', ascii ''S2''}"
    by simp
  from t have p: "\<And>name. sublist (lower STOP_NAME) (lower name) \<longleftrightarrow> contains_ci name STOP_NAME"
    by blast
  have "sublist (lower STOP_NAME) (lower sidliste)" "sublist (lower STOP_NAME) (lower smycka)"
    "sublist (lower STOP_NAME) (lower [74, 65, 78, 366, 86, 32, 68, 366, 76])"
    "\<not> sublist (lower STOP_NAME) (lower (ascii ''Januv dul''))"
    by (simp_all add: string_eval sidliste_def smycka_def)
  then have c: "contains_ci sidliste STOP_NAME" "contains_ci smycka STOP_NAME"
    "contains_ci [74, 65, 78, 366, 86, 32, 68, 366, 76] STOP_NAME"
    "\<not> contains_ci (ascii ''Januv dul'') STOP_NAME"
    by (simp_all add: p)
  from t have "\<not> same_letter 117 367" by simp
  with sample_stop_ids m c show ?thesis by simp
qed

lemma no_stop_ids_exits:
  assumes "stop_ids_of stop_name stops = Inr {}"
  shows "results_body stop_name tram tz now stops stop_times trips routes calendar cal_dates
           = Inl (SystemExit (exit_message stop_name))"
    and "departures_body stop_name tram max_results tz now stops stop_times trips routes calendar cal_dates
           = Inl (SystemExit (exit_message stop_name))"
    and "main_body stop_name tram max_results tz now now_fold stops stop_times trips routes calendar cal_dates
           = Inl (SystemExit (exit_message stop_name))"
  by (simp_all add: main_body_def departures_body_def results_body_def assms)

lemma no_match_no_stop_ids:
  assumes "\<forall>s\<in>set stops. \<exists>name. map_of s (ascii ''stop_name'') = Some name
             \<and> \<not> sublist (lower stop_name) (lower name)"
  shows "stop_ids_of stop_name stops = Inr {}"
  using assms by (induction stops) (auto simp: getitem_def)

text \<open>
  Claim C6. When no stop of the table has a name that holds the query, the set of stop
  identifiers is empty and \<open>main\<close> ends with \<open>SystemExit\<close>, whose message quotes the query;
  no dictionary is produced, and in particular not one with an empty list of departures.
\<close>

theorem no_matching_stop_is_fatal:
  assumes "\<forall>s\<in>set stops. \<exists>name. map_of s (ascii ''stop_name'') = Some name
             \<and> \<not> sublist (lower stop_name) (lower name)"
  shows "stop_ids_of stop_name stops = Inr {}
       \<and> main_body stop_name tram max_results tz now now_fold
            stops stop_times trips routes calendar cal_dates
          = Inl (SystemExit (exit_message stop_name))
       \<and> departures_body stop_name tram max_results tz now
            stops stop_times trips routes calendar cal_dates
          \<noteq> Inr []
       \<and> sublist stop_name (exit_message stop_name)"
proof -
  have e: "stop_ids_of stop_name stops = Inr {}"
    using assms by (rule no_match_no_stop_ids)
  have "sublist stop_name (exit_message stop_name)"
    unfolding exit_message_def sublist_def by (metis append.assoc)
  with e no_stop_ids_exits(2,3)[OF e] show ?thesis by simp
qed

text \<open>A table with one stop of another name: \<open>main\<close> exits with the message of the script.\<close>

theorem no_matching_stop_is_fatal_witness:
  "stop_ids_of STOP_NAME [stop_row ''S3'' (ascii ''Fugnerova'')] = Inr {}
   \<and> main plus_one_hour sample_now False [stop_row ''S3'' (ascii ''Fugnerova'')]
        sample_stop_times sample_trips sample_routes [weekday_rule] []
      = Inl (SystemExit
          ([78, 101, 110, 97, 108, 101, 122, 101, 110, 121, 32, 382, 225, 100, 110, 233, 32]
           @ ascii ''stop_id pro '' @ [39, 74, 97, 110, 367, 118, 32, 100, 367, 108, 39, 46]))
   \<and> sublist STOP_NAME (exit_message STOP_NAME)"
proof -
  have n: "\<forall>s\<in>set [stop_row ''S3'' (ascii ''Fugnerova'')].
      \<exists>name. map_of s (ascii ''stop_name'') = Some name \<and> \<not> sublist (lower STOP_NAME) (lower name)"
    by (simp add: stop_row_def string_eval)
  from no_matching_stop_is_fatal[OF n, of ONLY_TRAM MAX_RESULTS plus_one_hour sample_now False
      sample_stop_times sample_trips sample_routes "[weekday_rule]" "[]"]
  show ?thesis
    by (simp add: main_def exit_message_def STOP_NAME_def)
qed


subsection \<open>Routes that the feed does not list\<close>

lemma index_by_dom:
  assumes "index_by key rows acc = Inr m"
  shows "dom m = dom acc \<union> {k. \<exists>r\<in>set rows. map_of r key = Some k}"
  using assms
proof (induction rows arbitrary: acc)
  case Nil
  then show ?case by simp
next
  case (Cons r rows)
  from Cons.prems obtain k where k: "map_of r key = Some k"
    and l: "index_by key rows (acc(k \<mapsto> r)) = Inr m"
    by (auto simp: getitem_def split: option.splits)
  from Cons.IH[OF l] k show ?case by (auto split: if_splits)
qed

lemma tram_route_ids_listed:
  assumes "tram_route_ids routes = Inr ids"
  shows "ids \<subseteq> {k. \<exists>r\<in>set routes. map_of r (ascii ''route_id'') = Some k}"
  using assms
proof (induction routes arbitrary: ids)
  case Nil
  then show ?case by simp
next
  case (Cons r routes)
  show ?case
  proof (cases "map_of r (ascii ''route_type'') = Some (ascii ''0'')")
    case True
    with Cons.prems obtain rid ids' where "map_of r (ascii ''route_id'') = Some rid"
      "tram_route_ids routes = Inr ids'" "ids = insert rid ids'"
      by (auto simp: getitem_def split: option.splits sum.splits)
    with Cons.IH[of ids'] show ?thesis by auto
  next
    case False
    with Cons.prems have "tram_route_ids routes = Inr ids" by simp
    with Cons.IH[of ids] show ?thesis by auto
  qed
qed

lemma unlisted_route_not_allowed:
  assumes "index_by (ascii ''route_id'') routes Map.empty = Inr routes_by_id"
    and "tram_route_ids routes = Inr ids"
    and "routes_by_id rid = None"
  shows "rid \<notin> ids"
proof
  assume "rid \<in> ids"
  with tram_route_ids_listed[OF assms(2)] index_by_dom[OF assms(1)]
  have "rid \<in> dom routes_by_id" by auto
  with assms(3) show False by auto
qed

text \<open>
  Claim C10. A stop time whose trip names a route that is not in the routes table is
  passed over when the tram filter is on, because the allowed routes are all rows of that
  table. With the filter off, a departure made from such a stop time has the empty string
  for both route names.
\<close>

theorem unlisted_route_skipped_or_unnamed:
  assumes "index_by (ascii ''route_id'') routes Map.empty = Inr routes_by_id"
    and "tram_route_ids routes = Inr ids"
    and "map_of st (ascii ''stop_id'') = Some sid"
    and "map_of st (ascii ''trip_id'') = Some tid"
    and "trips_by_id tid = Some trip"
    and "map_of trip (ascii ''service_id'') = Some service"
    and "map_of trip (ascii ''route_id'') = Some rid"
    and "routes_by_id rid = None"
  shows "departure_of stop_ids trips_by_id routes_by_id active_sids (Some ids) tz now st = Inr None
       \<and> (\<forall>dt dep. departure_of stop_ids trips_by_id routes_by_id active_sids None tz now st
                       = Inr (Some (dt, dep))
            \<longrightarrow> route_short_name dep = [] \<and> route_long_name dep = [])"
proof -
  have "rid \<notin> ids" using unlisted_route_not_allowed[OF assms(1,2,8)] .
  then have skip: "route_skip (Some ids) rid" by (simp add: route_skip_def)
  have service: "\<exists>b. service_skip active_sids trip = Inr b"
    by (cases "active_sids = {}") (auto simp: service_skip_def getitem_def assms(6))
  then obtain b where b: "service_skip active_sids trip = Inr b" ..
  have on: "departure_of stop_ids trips_by_id routes_by_id active_sids (Some ids) tz now st = Inr None"
    unfolding departure_of_def getitem_def Let_def
    by (simp add: assms(3,4,5,7) b skip)
  have off: "route_short_name dep = [] \<and> route_long_name dep = []"
    if "departure_of stop_ids trips_by_id routes_by_id active_sids None tz now st = Inr (Some (dt, dep))"
    for dt dep
  proof -
    from that obtain tid' trip' rid' where t: "map_of st (ascii ''trip_id'') = Some tid'"
      "trips_by_id tid' = Some trip'" "map_of trip' (ascii ''route_id'') = Some rid'"
      and d: "route_short_name dep =
                get_or (case routes_by_id rid' of None \<Rightarrow> [] | Some r \<Rightarrow> r) (ascii ''route_short_name'') []"
             "route_long_name dep =
                get_or (case routes_by_id rid' of None \<Rightarrow> [] | Some r \<Rightarrow> r) (ascii ''route_long_name'') []"
      by (rule departure_of_SomeE) simp
    from t assms(4,5,7) have "rid' = rid" by simp
    with d assms(8) show ?thesis by (simp add: get_or_def)
  qed
  from on off show ?thesis by blast
qed

text \<open>
  Trip T3 of the sample feed runs on route R9, which the routes table does not list: with
  the filter on nothing is emitted, with the filter off a departure without route names.
\<close>

theorem unlisted_route_skipped_or_unnamed_witness:
  "index_by (ascii ''route_id'') sample_routes Map.empty = Inr sample_routes_by_id
   \<and> tram_route_ids sample_routes = Inr {ascii ''R3''}
   \<and> sample_routes_by_id (ascii ''R9'') = None
   \<and> departure_of {ascii ''S1'', ascii ''S2''} sample_trips_by_id sample_routes_by_id {ascii ''WD''}
        (Some {ascii ''R3''}) plus_one_hour sample_now unlisted_route_stop_time = Inr None
   \<and> map_sum id (map_option (\<lambda>r. (fst r, route_short_name (snd r), route_long_name (snd r), headsign (snd r))))
        (departure_of {ascii ''S1'', ascii ''S2''} sample_trips_by_id sample_routes_by_id {ascii ''WD''}
           None plus_one_hour sample_now unlisted_route_stop_time)
      = Inr (Some (((2024, 1, 3), 10, 15, 0, 0), [], [], ascii ''Depo''))"
proof -
  have i: "index_by (ascii ''route_id'') sample_routes Map.empty = Inr sample_routes_by_id"
    by (simp add: main_eval sample_eval getitem_def ascii_def)
  have r: "tram_route_ids sample_routes = Inr {ascii ''R3''}"
    by (simp add: main_eval getitem_def ascii_def)
  have s: "map_of unlisted_route_stop_time (ascii ''stop_id'') = Some (ascii ''S1'')"
    "map_of unlisted_route_stop_time (ascii ''trip_id'') = Some (ascii ''T3'')"
    "sample_trips_by_id (ascii ''T3'') = Some (trip_row ''T3'' ''R9'' ''WD'' ''Depo'')"
    "map_of (trip_row ''T3'' ''R9'' ''WD'' ''Depo'') (ascii ''service_id'') = Some (ascii ''WD'')"
    "map_of (trip_row ''T3'' ''R9'' ''WD'' ''Depo'') (ascii ''route_id'') = Some (ascii ''R9'')"
    "sample_routes_by_id (ascii ''R9'') = None"
    by (simp_all add: main_eval sample_eval ascii_def)
  have e: "departure_of {ascii ''S1'', ascii ''S2''} sample_trips_by_id sample_routes_by_id {ascii ''WD''}
           None plus_one_hour sample_now unlisted_route_stop_time
      = Inr (Some (((2024, 1, 3), 10, 15, 0, 0),
          \<lparr> time = ascii ''10:15'', timestamp = ascii ''2024-01-03T10:15:00+01:00'',
            route_short_name = [], route_long_name = [], headsign = ascii ''Depo'',
            direction_id = ascii ''0'', stop_id = ascii ''S1'', stop_sequence = ascii ''4'' \<rparr>))"
    by (simp add: main_eval sample_eval getitem_def string_eval time_eval date_eval)
  from unlisted_route_skipped_or_unnamed[where routes = sample_routes
      and routes_by_id = sample_routes_by_id and trips_by_id = sample_trips_by_id
      and tid = "ascii ''T3''" and rid = "ascii ''R9''" and st = unlisted_route_stop_time
      and stop_ids = "{ascii ''S1'', ascii ''S2''}" and active_sids = "{ascii ''WD''}"
      and tz = plus_one_hour and now = sample_now, OF i r s]
  have "departure_of {ascii ''S1'', ascii ''S2''} sample_trips_by_id sample_routes_by_id {ascii ''WD''}
        (Some {ascii ''R3''}) plus_one_hour sample_now unlisted_route_stop_time = Inr None"
    by blast
  with i r s(6) e show ?thesis by simp
qed


subsection \<open>Departure times\<close>


lemma strip_digits:
  assumes "is_digit a" and "is_digit b"
  shows "strip [a, b] = [a, b]"
  using assms by (auto simp: strip_def is_digit_def is_space_def)

lemma py_int_two_digits:
  assumes "is_digit a" and "is_digit b"
  shows "py_int [a, b] = Inr (int (two_digits a b))"
  using assms
  by (auto simp: py_int_def strip_digits unsigned_int_def two_digits_def Let_def is_digit_def)

lemma split_clock:
  assumes "is_digit h1" "is_digit h2" "is_digit m1" "is_digit m2" "is_digit s1" "is_digit s2"
  shows "split 58 (clock h1 h2 m1 m2 s1 s2) = [[h1, h2], [m1, m2], [s1, s2]]"
  using assms by (auto simp: clock_def is_digit_def)

lemma to_seconds_clock:
  assumes "is_digit h1" "is_digit h2" "is_digit m1" "is_digit m2" "is_digit s1" "is_digit s2"
  shows "to_seconds (clock h1 h2 m1 m2 s1 s2)
     = Inr (int (two_digits h1 h2 * 3600 + two_digits m1 m2 * 60 + two_digits s1 s2))"
  unfolding to_seconds_def
  by (simp add: split_clock assms py_int_two_digits)

lemma datetime_add_midnight:
  assumes "datetime_add (d, 0, 0, 0, 0) secs = Inr dt" and "0 \<le> secs"
  shows "dt = (ord2ymd (toordinal d + nat (secs div 86400)),
               nat (secs mod 86400 div 3600), nat (secs mod 3600 div 60), nat (secs mod 60), 0)"
proof -
  have a: "(int (toordinal d) * 86400 + secs) div 86400 = int (toordinal d) + secs div 86400"
    by simp
  have b: "(int (toordinal d) * 86400 + secs) mod 86400 = secs mod 86400"
    by simp
  have c: "nat (int (toordinal d) + secs div 86400) = toordinal d + nat (secs div 86400)"
    using assms(2) by (simp add: nat_add_distrib pos_imp_zdiv_nonneg_iff)
  have m: "0 \<le> secs mod 86400" by simp
  have d1: "nat (secs mod 86400) div 3600 = nat (secs mod 86400 div 3600)"
    using m by (simp add: nat_div_distrib)
  have e1: "nat (secs mod 86400) mod 3600 = nat (secs mod 86400 mod 3600)"
    using m by (simp add: nat_mod_distrib)
  have e2: "secs mod 86400 mod 3600 = secs mod 3600"
    by (simp add: mod_mod_cancel)
  have d2: "nat (secs mod 86400) mod 3600 div 60 = nat (secs mod 3600 div 60)"
    unfolding e1 e2 by (simp add: nat_div_distrib)
  have e3: "nat (secs mod 86400) mod 60 = nat (secs mod 86400 mod 60)"
    using m by (simp add: nat_mod_distrib)
  have e4: "secs mod 86400 mod 60 = secs mod 60"
    by (simp add: mod_mod_cancel)
  have d3: "nat (secs mod 86400) mod 60 = nat (secs mod 60)"
    unfolding e3 e4 by simp
  from assms(1) show ?thesis
    unfolding datetime_add_def prod.case Let_def
    by (auto simp: a b c d1 d2 d3 new_datetime_def split: if_splits)
qed

lemma strftime_HM_digits:
  assumes "valid_datetime (d, H, M, S, us)"
  shows "strftime_HM (d, H, M, S, us) = [48 + H div 10, 48 + H mod 10, 58, 48 + M div 10, 48 + M mod 10]"
proof -
  from assms have "H < 100" "M < 100" by (simp_all add: valid_datetime_def)
  then show ?thesis by (simp add: strftime_HM_def zpad_2)
qed

lemma clock_shape: "length (clock h1 h2 m1 m2 s1 s2) = 8 \<and> 58 \<in> set (clock h1 h2 m1 m2 s1 s2)"
  by (simp add: clock_def)

lemma datetime_add_midnight_nat:
  assumes "datetime_add (d, 0, 0, 0, 0) (int n) = Inr dt"
  shows "dt = (ord2ymd (toordinal d + n div 86400),
               n mod 86400 div 3600, n mod 3600 div 60, n mod 60, 0)"
proof -
  have "nat (int n div 86400) = n div 86400" "nat (int n mod 86400 div 3600) = n mod 86400 div 3600"
    "nat (int n mod 3600 div 60) = n mod 3600 div 60" "nat (int n mod 60) = n mod 60"
    by (simp_all add: nat_div_distrib nat_mod_distrib)
  with datetime_add_midnight[OF assms] show ?thesis by simp
qed

text \<open>
  Claim C7. A departure time of six digits \<open>HH:MM:SS\<close> parses to
  \<open>HH * 3600 + MM * 60 + SS\<close> seconds, and the instant of a departure made from it is
  midnight of the reference date plus these seconds: the date moves on by one day for every
  86400 seconds, and the hour, minute and second are what is left. The label \<open>time\<close> is the
  zero-padded hour and minute of that instant. For \<open>25:10:00\<close> on 2024-01-01 the instant
  is 2024-01-02 01:10:00 and the label \<open>01:10\<close>.
\<close>

theorem departure_instant_is_midnight_plus_seconds:
  assumes "is_digit h1" "is_digit h2" "is_digit m1" "is_digit m2" "is_digit s1" "is_digit s2"
  shows "to_seconds (clock h1 h2 m1 m2 s1 s2)
           = Inr (int (two_digits h1 h2 * 3600 + two_digits m1 m2 * 60 + two_digits s1 s2))
       \<and> (\<forall>S T R A L tz now st dep_dt dep.
             departure_of S T R A L tz now st = Inr (Some (dep_dt, dep))
             \<and> map_of st (ascii ''departure_time'') = Some (clock h1 h2 m1 m2 s1 s2)
           \<longrightarrow> datetime_add (fst now, 0, 0, 0, 0)
                   (int (two_digits h1 h2 * 3600 + two_digits m1 m2 * 60 + two_digits s1 s2))
                 = Inr dep_dt
               \<and> dep_dt =
                   (ord2ymd (toordinal (fst now)
                      + (two_digits h1 h2 * 3600 + two_digits m1 m2 * 60 + two_digits s1 s2) div 86400),
                    (two_digits h1 h2 * 3600 + two_digits m1 m2 * 60 + two_digits s1 s2) mod 86400 div 3600,
                    (two_digits h1 h2 * 3600 + two_digits m1 m2 * 60 + two_digits s1 s2) mod 3600 div 60,
                    (two_digits h1 h2 * 3600 + two_digits m1 m2 * 60 + two_digits s1 s2) mod 60,
                    0)
               \<and> valid_datetime dep_dt
               \<and> time dep = strftime_HM dep_dt
               \<and> (\<forall>d H M sec us. dep_dt = (d, H, M, sec, us) \<longrightarrow>
                     time dep = [48 + H div 10, 48 + H mod 10, 58, 48 + M div 10, 48 + M mod 10])
               \<and> timestamp dep = isoformat tz False dep_dt)
       \<and> to_seconds (ascii ''25:10:00'') = Inr 90600
       \<and> datetime_add ((2024, 1, 1), 0, 0, 0, 0) 90600 = Inr ((2024, 1, 2), 1, 10, 0, 0)
       \<and> toordinal (2024, 1, 2) = toordinal (2024, 1, 1) + 1
       \<and> strftime_HM ((2024, 1, 2), 1, 10, 0, 0) = ascii ''01:10''"
proof -
  let ?n = "two_digits h1 h2 * 3600 + two_digits m1 m2 * 60 + two_digits s1 s2"
  have ts: "to_seconds (clock h1 h2 m1 m2 s1 s2) = Inr (int ?n)"
    using assms by (rule to_seconds_clock)
  have per: "datetime_add (fst now, 0, 0, 0, 0) (int ?n) = Inr dep_dt
        \<and> dep_dt = (ord2ymd (toordinal (fst now) + ?n div 86400),
                    ?n mod 86400 div 3600, ?n mod 3600 div 60, ?n mod 60, 0)
        \<and> valid_datetime dep_dt
        \<and> time dep = strftime_HM dep_dt
        \<and> (\<forall>d H M sec us. dep_dt = (d, H, M, sec, us) \<longrightarrow>
              time dep = [48 + H div 10, 48 + H mod 10, 58, 48 + M div 10, 48 + M mod 10])
        \<and> timestamp dep = isoformat tz False dep_dt"
    if e: "departure_of S T R A L tz now st = Inr (Some (dep_dt, dep))"
      and c: "map_of st (ascii ''departure_time'') = Some (clock h1 h2 m1 m2 s1 s2)"
    for S T R A L tz now st dep_dt dep
  proof -
    from e obtain dep_str dep_sec where
      d: "map_of st (ascii ''departure_time'') = Some dep_str"
      and t: "to_seconds dep_str = Inr dep_sec"
      and a: "datetime_add (fst now, 0, 0, 0, 0) dep_sec = Inr dep_dt"
      by (rule departure_of_SomeE)
    from d c t ts have s: "dep_sec = int ?n" by simp
    from a s have a': "datetime_add (fst now, 0, 0, 0, 0) (int ?n) = Inr dep_dt" by simp
    have f: "dep_dt = (ord2ymd (toordinal (fst now) + ?n div 86400),
                    ?n mod 86400 div 3600, ?n mod 3600 div 60, ?n mod 60, 0)"
      using a' by (rule datetime_add_midnight_nat)
    have v: "valid_datetime dep_dt" using datetime_add_valid[OF a'] by simp
    have tm: "time dep = strftime_HM dep_dt" "timestamp dep = isoformat tz False dep_dt"
      using emitted_facts(4,5)[OF e] by simp_all
    have dg: "time dep = [48 + H div 10, 48 + H mod 10, 58, 48 + M div 10, 48 + M mod 10]"
      if "dep_dt = (d, H, M, sec, us)" for d H M sec us
      using strftime_HM_digits[OF v[unfolded that]] tm(1) that by simp
    from a' f v tm dg show ?thesis by blast
  qed
  have ex: "to_seconds (ascii ''25:10:00'') = Inr 90600"
    "datetime_add ((2024, 1, 1), 0, 0, 0, 0) 90600 = Inr ((2024, 1, 2), 1, 10, 0, 0)"
    "toordinal (2024, 1, 2) = toordinal (2024, 1, 1) + 1"
    "strftime_HM ((2024, 1, 2), 1, 10, 0, 0) = ascii ''01:10''"
    by (simp_all add: time_eval date_eval ascii_def)
  from ts per ex show ?thesis by blast
qed

text \<open>
  The stop time \<open>25:10:00\<close> of the sample feed, seen at 10:00 on Monday 2024-01-01: the
  departure is on Tuesday at 01:10, its timestamp carries the offset of the time zone.
\<close>

theorem departure_instant_is_midnight_plus_seconds_witness:
  "is_digit 50 \<and> is_digit 53 \<and> is_digit 49 \<and> is_digit 48
   \<and> clock 50 53 49 48 48 48 = ascii ''25:10:00''
   \<and> to_seconds (ascii ''25:10:00'') = Inr 90600
   \<and> departure_of {ascii ''S1'', ascii ''S2''} sample_trips_by_id sample_routes_by_id {ascii ''WD''}
        (Some {ascii ''R3''}) plus_one_hour ((2024, 1, 1), 10, 0, 0, 0)
        (stop_time_row ''T1'' ''S1'' ''25:10:00'' ''5'')
      = Inr (Some (((2024, 1, 2), 1, 10, 0, 0),
          \<lparr> time = ascii ''01:10'', timestamp = ascii ''2024-01-02T01:10:00+01:00'',
            route_short_name = ascii ''3'', route_long_name = ascii ''Lidove sady - Horni Hanychov'',
            headsign = ascii ''Horni Hanychov'', direction_id = ascii ''0'',
            stop_id = ascii ''S1'', stop_sequence = ascii ''5'' \<rparr>))
   \<and> datetime_add ((2024, 1, 1), 0, 0, 0, 0) 90600 = Inr ((2024, 1, 2), 1, 10, 0, 0)
   \<and> (((2024, 1, 2), 1, 10, 0, 0) :: datetime) = (ord2ymd (toordinal (2024, 1, 1) + 1), 1, 10, 0, 0)"
proof -
  have d: "is_digit 50" "is_digit 53" "is_digit 49" "is_digit 48"
    by (simp_all add: is_digit_def)
  have c: "clock 50 53 49 48 48 48 = ascii ''25:10:00''"
    by (simp add: clock_def ascii_def)
  have n: "two_digits 50 53 * 3600 + two_digits 49 48 * 60 + two_digits 48 48 = 90600"
    by (simp add: two_digits_def)
  have e: "departure_of {ascii ''S1'', ascii ''S2''} sample_trips_by_id sample_routes_by_id {ascii ''WD''}
        (Some {ascii ''R3''}) plus_one_hour ((2024, 1, 1), 10, 0, 0, 0)
        (stop_time_row ''T1'' ''S1'' ''25:10:00'' ''5'')
      = Inr (Some (((2024, 1, 2), 1, 10, 0, 0),
          \<lparr> time = ascii ''01:10'', timestamp = ascii ''2024-01-02T01:10:00+01:00'',
            route_short_name = ascii ''3'', route_long_name = ascii ''Lidove sady - Horni Hanychov'',
            headsign = ascii ''Horni Hanychov'', direction_id = ascii ''0'',
            stop_id = ascii ''S1'', stop_sequence = ascii ''5'' \<rparr>))"
    by (simp add: main_eval sample_eval getitem_def string_eval time_eval date_eval)
  have m: "map_of (stop_time_row ''T1'' ''S1'' ''25:10:00'' ''5'') (ascii ''departure_time'')
             = Some (clock 50 53 49 48 48 48)"
    by (simp add: c stop_time_row_def ascii_def)
  note t = departure_instant_is_midnight_plus_seconds[OF d(1,2,3,4,4,4), unfolded n]
  from t have s: "to_seconds (ascii ''25:10:00'') = Inr 90600" by simp
  from t have per: "datetime_add (fst now, 0, 0, 0, 0) (int 90600) = Inr dep_dt
      \<and> dep_dt = (ord2ymd (toordinal (fst now) + 90600 div 86400),
                   90600 mod 86400 div 3600, 90600 mod 3600 div 60, 90600 mod 60, 0)"
    if "departure_of S T R A L tz now st = Inr (Some (dep_dt, dep))"
      and "map_of st (ascii ''departure_time'') = Some (clock 50 53 49 48 48 48)"
    for S T R A L tz now st dep_dt dep
    using that by blast
  from per[OF e m] have a: "datetime_add ((2024, 1, 1), 0, 0, 0, 0) 90600 = Inr ((2024, 1, 2), 1, 10, 0, 0)"
    and o: "(((2024, 1, 2), 1, 10, 0, 0) :: datetime) = (ord2ymd (toordinal (2024, 1, 1) + 1), 1, 10, 0, 0)"
    by simp_all
  from d c s e a o show ?thesis by simp
qed

text \<open>
  Claim C5 does not hold of the script. The check before \<open>to_seconds\<close> passes every time of
  eight characters that contains a colon, and \<open>int\<close> raises \<open>ValueError\<close> on pieces that are
  no numbers: the stop time \<open>ab:cd:ef\<close> ends the whole run, while the short time \<open>7:05\<close>
  is passed over as the claim says.
\<close>

theorem garbled_time_aborts_the_run:
  "map_of garbled_stop_time (ascii ''departure_time'') = Some (ascii ''ab:cd:ef'')
   \<and> length (ascii ''ab:cd:ef'') = 8 \<and> 58 \<in> set (ascii ''ab:cd:ef'')
   \<and> to_seconds (ascii ''ab:cd:ef'') = Inl ValueError
   \<and> departure_of {ascii ''S1'', ascii ''S2''} sample_trips_by_id sample_routes_by_id {ascii ''WD''}
        (Some {ascii ''R3''}) plus_one_hour sample_now garbled_stop_time = Inl ValueError
   \<and> main plus_one_hour sample_now False sample_stops (sample_stop_times @ [garbled_stop_time])
        sample_trips sample_routes [weekday_rule] [] = Inl ValueError
   \<and> departure_of {ascii ''S1'', ascii ''S2''} sample_trips_by_id sample_routes_by_id {ascii ''WD''}
        (Some {ascii ''R3''}) plus_one_hour sample_now (stop_time_row ''T1'' ''S1'' ''7:05'' ''1'')
      = Inr None"
  by (simp add: main_def main_body_def ONLY_TRAM_def MAX_RESULTS_def main_eval sample_eval getitem_def
      string_eval time_eval resolver_eval date_eval)

text \<open>
  Without the garbled row the same feed yields its five departures; with it, nothing.
\<close>

theorem garbled_time_aborts_the_run_witness:
  "main plus_one_hour sample_now False sample_stops (sample_stop_times @ [garbled_stop_time])
     sample_trips sample_routes [weekday_rule] [] = Inl ValueError
   \<and> map_sum id (map fst)
       (results_body STOP_NAME True plus_one_hour sample_now sample_stops sample_stop_times
          sample_trips sample_routes [weekday_rule] [])
     = Inr [((2024, 1, 4), 1, 10, 0, 0), ((2024, 1, 3), 10, 0, 0, 0), ((2024, 1, 3), 11, 0, 0, 0),
            ((2024, 1, 3), 10, 30, 0, 0), ((2024, 1, 3), 23, 59, 59, 0)]"
  using garbled_time_aborts_the_run sample_results by blast


subsection \<open>A feed without calendars\<close>


lemma service_skip_empty: "service_skip {} trip = Inr False"
  by (simp add: service_skip_def)

lemma service_skip_True:
  "service_skip active trip = Inr True \<longleftrightarrow>
     active \<noteq> {} \<and> (\<exists>sid. map_of trip (ascii ''service_id'') = Some sid \<and> sid \<notin> active)"
  by (auto simp: service_skip_def getitem_def split: option.splits)

lemma with_service_lookup:
  assumes "k \<noteq> ascii ''service_id''"
  shows "map_of (with_service g t) k = map_of t k"
  using assms by (simp add: with_service_def)

lemma field_names_differ:
  "ascii ''trip_id'' \<noteq> ascii ''service_id''" "ascii ''route_id'' \<noteq> ascii ''service_id''"
  "ascii ''trip_headsign'' \<noteq> ascii ''service_id''" "ascii ''direction_id'' \<noteq> ascii ''service_id''"
  by (simp_all add: ascii_def)

lemma index_by_with_service:
  "index_by (ascii ''trip_id'') (map (with_service g) trips) (map_option (with_service g) \<circ> acc)
     = map_sum id (\<lambda>m. map_option (with_service g) \<circ> m) (index_by (ascii ''trip_id'') trips acc)"
proof (induction trips arbitrary: acc)
  case Nil
  then show ?case by simp
next
  case (Cons t trips)
  have k: "getitem (with_service g t) (ascii ''trip_id'') = getitem t (ascii ''trip_id'')"
    by (simp add: getitem_def with_service_lookup field_names_differ)
  show ?case
  proof (cases "getitem t (ascii ''trip_id'')")
    case (Inl e)
    then show ?thesis by (simp add: k)
  next
    case (Inr v)
    have eq: "(map_option (with_service g) \<circ> acc)(v \<mapsto> with_service g t)
            = map_option (with_service g) \<circ> (acc(v \<mapsto> t))"
      by (auto simp: fun_eq_iff)
    have "index_by (ascii ''trip_id'') (map (with_service g) (t # trips)) (map_option (with_service g) \<circ> acc)
        = index_by (ascii ''trip_id'') (map (with_service g) trips)
            ((map_option (with_service g) \<circ> acc)(v \<mapsto> with_service g t))"
      by (simp only: list.map index_by.simps k Inr sum.case)
    also have "\<dots> = map_sum id (\<lambda>m. map_option (with_service g) \<circ> m)
                     (index_by (ascii ''trip_id'') trips (acc(v \<mapsto> t)))"
      unfolding eq by (rule Cons.IH)
    also have "index_by (ascii ''trip_id'') trips (acc(v \<mapsto> t))
                 = index_by (ascii ''trip_id'') (t # trips) acc"
      by (simp only: index_by.simps Inr sum.case)
    finally show ?thesis .
  qed
qed

lemma index_by_rows_keyed:
  assumes "index_by key rows acc = Inr m" and "\<forall>t\<in>ran acc. t \<noteq> []"
  shows "\<forall>t\<in>ran m. t \<noteq> []"
  using assms
proof (induction rows arbitrary: acc)
  case Nil
  then show ?case by simp
next
  case (Cons r rows)
  from Cons.prems(1) obtain k where k: "map_of r key = Some k"
    and l: "index_by key rows (acc(k \<mapsto> r)) = Inr m"
    by (auto simp: getitem_def split: option.splits)
  from k have "r \<noteq> []" by auto
  with Cons.prems(2) have "\<forall>t\<in>ran (acc(k \<mapsto> r)). t \<noteq> []"
    by (auto simp: ran_def split: if_splits)
  from Cons.IH[OF l this] show ?case .
qed

lemma departure_of_with_service:
  assumes "\<forall>t\<in>ran trips_by_id. t \<noteq> []"
  shows "departure_of stop_ids (map_option (with_service g) \<circ> trips_by_id) routes_by_id {} allowed tz now st
       = departure_of stop_ids trips_by_id routes_by_id {} allowed tz now st"
proof (cases "getitem st (ascii ''stop_id'')")
  case (Inl e)
  then show ?thesis by (simp add: departure_of_def)
next
  case sid: (Inr sid)
  show ?thesis
  proof (cases "getitem st (ascii ''trip_id'')")
    case (Inl e)
    with sid show ?thesis by (simp add: departure_of_def)
  next
    case (Inr tid)
    show ?thesis
    proof (cases "trips_by_id tid")
      case None
      with sid Inr show ?thesis by (simp add: departure_of_def)
    next
      case (Some trip)
      with assms have ne: "trip \<noteq> []" by (auto simp: ran_def)
      have w: "with_service g trip \<noteq> []" by (simp add: with_service_def)
      have r: "getitem (with_service g trip) (ascii ''route_id'') = getitem trip (ascii ''route_id'')"
        by (simp add: getitem_def with_service_lookup field_names_differ)
      have h: "get_or (with_service g trip) (ascii ''trip_headsign'') [] = get_or trip (ascii ''trip_headsign'') []"
        "get_or (with_service g trip) (ascii ''direction_id'') [] = get_or trip (ascii ''direction_id'') []"
        by (simp_all add: get_or_def with_service_lookup field_names_differ)
      from sid Inr Some show ?thesis
        by (simp add: departure_of_def ne w r h service_skip_empty Let_def split: sum.split)
    qed
  qed
qed

lemma results_body_with_service:
  "results_body stop_name tram tz now stops stop_times (map (with_service g) trips) routes [] []
     = results_body stop_name tram tz now stops stop_times trips routes [] []"
proof -
  have i: "index_by (ascii ''trip_id'') (map (with_service g) trips) Map.empty
     = map_sum id (\<lambda>m. map_option (with_service g) \<circ> m) (index_by (ascii ''trip_id'') trips Map.empty)"
    using index_by_with_service[of g trips Map.empty] by simp
  have a: "active_service_ids [] [] (fst now) = Inr {}"
    by (simp add: active_service_ids_def)
  show ?thesis
  proof (cases "index_by (ascii ''trip_id'') trips Map.empty")
    case (Inl e)
    then show ?thesis by (simp add: results_body_def i split: sum.split)
  next
    case (Inr m)
    from index_by_rows_keyed[OF Inr] have "\<forall>t\<in>ran m. t \<noteq> []" by simp
    from departure_of_with_service[OF this]
    have "departure_of S (map_option (with_service g) \<circ> m) R {} L tz now
            = departure_of S m R {} L tz now" for S R L
      by (simp add: fun_eq_iff)
    with Inr show ?thesis by (simp add: results_body_def i a split: sum.split)
  qed
qed

text \<open>
  Claim C1. With both calendar tables empty the resolver returns the empty set, and the
  loop then does not look at the services of the trips at all: the check of the service
  answers "keep" for every trip, it can only answer "skip" when the set of active services
  is not empty, and the collected departures stay the same when the services of the trips
  are replaced by any others.
\<close>

theorem empty_calendar_disables_service_filter:
  "active_service_ids [] [] today = Inr {}
   \<and> service_skip {} trip = Inr False
   \<and> (service_skip active trip = Inr True \<longrightarrow> active \<noteq> {})
   \<and> results_body stop_name tram tz now stops stop_times (map (with_service g) trips) routes [] []
       = results_body stop_name tram tz now stops stop_times trips routes [] []"
  using results_body_with_service[of stop_name tram tz now stops stop_times g trips routes]
  by (simp add: active_service_ids_def service_skip_empty service_skip_True)

text \<open>
  Trip T4 of the sample feed runs on service SAT. Against the active set \<open>{WD}\<close> it is
  skipped; without calendars its departure is listed, also when every trip is moved to a
  service named NEVER.
\<close>

theorem empty_calendar_disables_service_filter_witness:
  "active_service_ids [] [] (2024, 1, 3) = Inr {}
   \<and> service_skip {} (trip_row ''T4'' ''R3'' ''SAT'' ''Lidove sady'') = Inr False
   \<and> service_skip {ascii ''WD''} (trip_row ''T4'' ''R3'' ''SAT'' ''Lidove sady'') = Inr True
   \<and> {ascii ''WD''} \<noteq> ({} :: pystr set)
   \<and> map_sum id (map fst)
        (results_body STOP_NAME True plus_one_hour sample_now sample_stops
           [stop_time_row ''T4'' ''S1'' ''10:07:00'' ''1''] sample_trips sample_routes [] [])
      = Inr [((2024, 1, 3), 10, 7, 0, 0)]
   \<and> map_sum id (map fst)
        (results_body STOP_NAME True plus_one_hour sample_now sample_stops
           [stop_time_row ''T4'' ''S1'' ''10:07:00'' ''1'']
           (map (with_service (\<lambda>t. ascii ''NEVER'')) sample_trips) sample_routes [] [])
      = Inr [((2024, 1, 3), 10, 7, 0, 0)]"
proof -
  note t = empty_calendar_disables_service_filter[of "(2024, 1, 3)"
      "trip_row ''T4'' ''R3'' ''SAT'' ''Lidove sady''" "{ascii ''WD''}" STOP_NAME True plus_one_hour
      sample_now sample_stops "[stop_time_row ''T4'' ''S1'' ''10:07:00'' ''1'']"
      "\<lambda>t. ascii ''NEVER''" sample_trips sample_routes]
  have s: "service_skip {ascii ''WD''} (trip_row ''T4'' ''R3'' ''SAT'' ''Lidove sady'') = Inr True"
    by (simp add: service_skip_def getitem_def trip_row_def ascii_def)
  have r: "map_sum id (map fst)
        (results_body STOP_NAME True plus_one_hour sample_now sample_stops
           [stop_time_row ''T4'' ''S1'' ''10:07:00'' ''1''] sample_trips sample_routes [] [])
      = Inr [((2024, 1, 3), 10, 7, 0, 0)]"
    by (simp add: main_eval string_eval time_eval resolver_eval date_eval)
  from t s r show ?thesis by simp
qed


end
